theory Spec2Isabelle
  imports Main "HOL-Library.Word"
begin

section \<open>The laser controller sketch as a state transformer\<close>

text \<open>
  The program is an Arduino sketch (\<^verbatim>\<open>laser_controller.ino\<close>) for an AVR board: \<^verbatim>\<open>byte\<close> is
  an unsigned 8-bit value, \<^verbatim>\<open>int\<close> a signed 16-bit value and \<^verbatim>\<open>long\<close> a signed 32-bit value.
  Values of these types are words; signed arithmetic wraps around. The globals of the sketch
  are the fields of one record, every function of the sketch takes the record and returns it
  updated. What the sketch does to the outside world is kept in three places of the record:
  the bytes waiting in the serial receive queue, the bytes written to the serial port, and the
  trace of pin writes and delays.
\<close>

type_synonym byte = "8 word"
type_synonym c_int = "16 word"
type_synonym c_long = "32 word"

subsection \<open>Configuration constants\<close>

definition MAX_FOCUS_ROTATION :: int where
  "MAX_FOCUS_ROTATION = 1440"

definition SERIAL_BUFFER_SIZE :: nat where
  "SERIAL_BUFFER_SIZE = 80"

definition NL :: char where
  "NL = CHR 0x0A"

definition NUL :: char where
  "NUL = CHR 0x00"

definition CRLF :: string where
  "CRLF = [CHR 0x0D, CHR 0x0A]"

datatype pin = PIN_LASER_PWM | PIN_LASER_ARM

datatype direction = CW | CCW | STOP

subsection \<open>The outside world\<close>

text \<open>
  A call of the Arduino core that acts on the hardware is an event of the trace:
  \<^verbatim>\<open>Serial.begin\<close>, \<^verbatim>\<open>pinMode(pin, OUTPUT)\<close>, \<^verbatim>\<open>digitalWrite\<close>, \<^verbatim>\<open>analogWrite\<close> and \<^verbatim>\<open>delay\<close>.
\<close>

datatype hw_event =
    SerialBegin nat
  | PinModeOutput pin
  | DigitalWrite pin bool
  | AnalogWrite pin nat
  | Delay nat

text \<open>
  The stepper is driven through the CustomStepper library, which is not part of the sketch.
  Its object is a value of an arbitrary type \<open>'m\<close>, and the member functions the sketch calls
  are the fields of the record below. \<^verbatim>\<open>rotateDegrees\<close> gets the value of its \<^verbatim>\<open>int\<close> argument;
  \<^verbatim>\<open>setRPM\<close> and \<^verbatim>\<open>setSPR\<close> are only ever called with the constants \<^verbatim>\<open>STEPPER_RPM\<close> and
  \<^verbatim>\<open>STEPPER_SPR\<close>, which are part of the two operations.
\<close>

record 'm CustomStepper =
  isDone :: "'m \<Rightarrow> bool"
  setDirection :: "direction \<Rightarrow> 'm \<Rightarrow> 'm"
  rotateDegrees :: "int \<Rightarrow> 'm \<Rightarrow> 'm"
  run :: "'m \<Rightarrow> 'm"
  setRPM :: "'m \<Rightarrow> 'm"
  setSPR :: "'m \<Rightarrow> 'm"

subsection \<open>The globals\<close>

text \<open>
  \<open>buffer\<close> has \<^verbatim>\<open>SERIAL_BUFFER_SIZE\<close> cells. \<open>buffer_offset\<close> is a \<^verbatim>\<open>byte\<close> in the sketch; it
  stays below 80 (lemma \<open>reachable_buffer_ok\<close>), so it never wraps and is a natural
  number here. \<open>dispatched\<close> is not a variable of the sketch: it logs the argument of every
  call of \<^verbatim>\<open>parse_command\<close> made by \<^verbatim>\<open>read_serial\<close>.
\<close>

record 'm state =
  buffer :: "char list"
  buffer_offset :: nat
  overflow_mode :: bool
  stepper :: 'm
  stepper_run :: bool
  stepper_pos :: c_long
  laser_duty_cycle :: byte
  laser_armed :: bool
  serial_in :: "char list"
  serial_out :: "char list"
  hw :: "hw_event list"
  dispatched :: "string list"

definition power_on :: "'m \<Rightarrow> 'm state" where
  "power_on m =
     \<lparr>buffer = replicate SERIAL_BUFFER_SIZE NUL, buffer_offset = 0, overflow_mode = False,
      stepper = m, stepper_run = False, stepper_pos = 0, laser_duty_cycle = 0,
      laser_armed = False, serial_in = [], serial_out = [], hw = [], dispatched = []\<rparr>"

subsection \<open>Serial output and pin writes\<close>

definition serial_print :: "string \<Rightarrow> 'm state \<Rightarrow> 'm state" where
  "serial_print t s = s\<lparr>serial_out := serial_out s @ t\<rparr>"

definition serial_println :: "string \<Rightarrow> 'm state \<Rightarrow> 'm state" where
  "serial_println t s = s\<lparr>serial_out := serial_out s @ t @ CRLF\<rparr>"

definition digitalWrite :: "pin \<Rightarrow> bool \<Rightarrow> 'm state \<Rightarrow> 'm state" where
  "digitalWrite p v s = s\<lparr>hw := hw s @ [DigitalWrite p v]\<rparr>"

definition analogWrite :: "pin \<Rightarrow> nat \<Rightarrow> 'm state \<Rightarrow> 'm state" where
  "analogWrite p v s = s\<lparr>hw := hw s @ [AnalogWrite p v]\<rparr>"

definition delay :: "nat \<Rightarrow> 'm state \<Rightarrow> 'm state" where
  "delay ms s = s\<lparr>hw := hw s @ [Delay ms]\<rparr>"

text \<open>\<^verbatim>\<open>Serial.print\<close> of a number writes it in decimal, with a minus sign when negative.\<close>

fun dec_nat :: "nat \<Rightarrow> string" where
  "dec_nat n =
     (if n < 10 then [''0123456789'' ! n]
      else dec_nat (n div 10) @ [''0123456789'' ! (n mod 10)])"

declare dec_nat.simps [simp del]

definition dec_int :: "int \<Rightarrow> string" where
  "dec_int i = (if i < 0 then CHR ''-'' # dec_nat (nat (- i)) else dec_nat (nat i))"

subsection \<open>The C library's \<^verbatim>\<open>atoi\<close>\<close>

text \<open>
  \<^verbatim>\<open>atoi\<close> skips white space, reads an optional sign and the decimal digits that follow, and
  stops at the first other character; with no digit the result is 0. The result is an \<^verbatim>\<open>int\<close>,
  so the accumulation is in 16 bits.
\<close>

definition isspace :: "char \<Rightarrow> bool" where
  "isspace c = (c \<in> set [CHR '' '', CHR 0x09, CHR 0x0A, CHR 0x0B, CHR 0x0C, CHR 0x0D])"

definition isdigit :: "char \<Rightarrow> bool" where
  "isdigit c = (c \<in> set ''0123456789'')"

definition digit_value :: "char \<Rightarrow> nat" where
  "digit_value c = length (takeWhile (\<lambda>d. d \<noteq> c) ''0123456789'')"

fun atoi_digits :: "c_int \<Rightarrow> string \<Rightarrow> c_int" where
  "atoi_digits acc [] = acc"
| "atoi_digits acc (c # cs) =
     (if isdigit c then atoi_digits (acc * 10 + of_nat (digit_value c)) cs else acc)"

definition atoi :: "string \<Rightarrow> c_int" where
  "atoi str =
     (case dropWhile isspace str of
        [] \<Rightarrow> 0
      | c # cs \<Rightarrow>
          if c = CHR ''-'' then - atoi_digits 0 cs
          else if c = CHR ''+'' then atoi_digits 0 cs
          else atoi_digits 0 (c # cs))"

subsection \<open>\<^verbatim>\<open>setup()\<close>\<close>

text \<open>The function \<^verbatim>\<open>setup\<close> of the sketch; the name is a keyword of Isabelle.\<close>

definition setup_sketch :: "'m CustomStepper \<Rightarrow> 'm state \<Rightarrow> 'm state" where
  "setup_sketch lib s =
     (let s = s\<lparr>hw := hw s @ [SerialBegin 115200]\<rparr>;
          s = s\<lparr>hw := hw s @ [PinModeOutput PIN_LASER_ARM]\<rparr>;
          s = digitalWrite PIN_LASER_ARM False s;
          s = analogWrite PIN_LASER_PWM 0 s;
          s = s\<lparr>stepper := setRPM lib (stepper s)\<rparr>;
          s = s\<lparr>stepper := setSPR lib (stepper s)\<rparr>;
          s = s\<lparr>buffer := replicate SERIAL_BUFFER_SIZE NUL\<rparr>;
          s = serial_print ''100 Laser Controller,  v'' s;
          s = serial_print ''0.1.0'' s
      in serial_println '', <borud@borud.org>'' s)"

subsection \<open>The device operations\<close>

text \<open>
  The Arduino core defines \<^verbatim>\<open>abs(x)\<close> as the macro \<^verbatim>\<open>((x)>0?(x):-(x))\<close>. The negation is an
  \<^verbatim>\<open>int\<close> negation: of the least \<^verbatim>\<open>int\<close> it is the least \<^verbatim>\<open>int\<close> again.
\<close>

definition c_abs :: "c_int \<Rightarrow> c_int" where
  "c_abs n = (if sint n > 0 then n else - n)"

definition step_focus :: "'m CustomStepper \<Rightarrow> c_int \<Rightarrow> 'm state \<Rightarrow> 'm state" where
  "step_focus lib n s =
     (if sint (c_abs n) > MAX_FOCUS_ROTATION then
        serial_println (dec_int MAX_FOCUS_ROTATION)
          (serial_print ''521 MAXIMUM FOCUS ROTATION IS '' s)
      else
        let s = (if sint n > 0 then
                   let s = s\<lparr>stepper := setDirection lib CCW (stepper s)\<rparr>
                   in s\<lparr>stepper := rotateDegrees lib (sint n) (stepper s)\<rparr>
                 else
                   let s = s\<lparr>stepper := setDirection lib CW (stepper s)\<rparr>
                   in s\<lparr>stepper := rotateDegrees lib (sint (- n)) (stepper s)\<rparr>);
            s = serial_print ''204 FOCUS '' s;
            s = serial_println (dec_int (sint n)) s;
            s = s\<lparr>stepper_pos := stepper_pos s + scast n\<rparr>
        in s\<lparr>stepper_run := True\<rparr>)"

definition emergency_stop :: "'m CustomStepper \<Rightarrow> 'm state \<Rightarrow> 'm state" where
  "emergency_stop lib s =
     (let s = digitalWrite PIN_LASER_ARM False s;
          s = analogWrite PIN_LASER_PWM 0 s;
          s = s\<lparr>laser_duty_cycle := 0\<rparr>;
          s = s\<lparr>laser_armed := False\<rparr>;
          s = serial_println ''520 LASER OFF (unarmed, duty_cycle = 0'' s
      in if \<not> isDone lib (stepper s) then
           let s = s\<lparr>stepper := setDirection lib STOP (stepper s)\<rparr>;
               s = s\<lparr>stepper_run := False\<rparr>
           in serial_println ''521 STEPPER STOPPED, POSITION LOST'' s
         else s)"

definition step_zero_pos :: "'m state \<Rightarrow> 'm state" where
  "step_zero_pos s =
     (let s = serial_print ''209 FOCUS ZEROED, old pos = '' s;
          s = serial_println (dec_int (sint (stepper_pos s))) s
      in s\<lparr>stepper_pos := 0\<rparr>)"

definition laser_set_duty_cycle :: "byte \<Rightarrow> 'm state \<Rightarrow> 'm state" where
  "laser_set_duty_cycle n s =
     (let s = s\<lparr>laser_duty_cycle := n\<rparr>;
          s = serial_print ''206 DUTY CYCLE '' s
      in serial_println (dec_nat (unat (laser_duty_cycle s))) s)"

text \<open>\<^verbatim>\<open>delay\<close> takes an \<^verbatim>\<open>unsigned long\<close>: the \<^verbatim>\<open>long\<close> argument is read as unsigned.\<close>

definition laser_fire :: "c_long \<Rightarrow> 'm state \<Rightarrow> 'm state" where
  "laser_fire n s =
     (if \<not> laser_armed s then serial_println ''530 LASER UNARMED'' s
      else
        let s = analogWrite PIN_LASER_PWM (unat (laser_duty_cycle s)) s;
            s = delay (unat n) s;
            s = analogWrite PIN_LASER_PWM 0 s;
            s = serial_print ''205 LASER FIRED '' s;
            s = serial_print (dec_int (sint n)) s;
            s = serial_print '' ms @ '' s;
            s = serial_print (dec_nat (unat (laser_duty_cycle s))) s
        in serial_println ''/255 duty cycle'' s)"

definition laser_arm :: "'m state \<Rightarrow> 'm state" where
  "laser_arm s =
     (let s = digitalWrite PIN_LASER_ARM True s;
          s = s\<lparr>laser_armed := True\<rparr>
      in serial_println ''207 LASER ARMED'' s)"

definition laser_unarm :: "'m state \<Rightarrow> 'm state" where
  "laser_unarm s =
     (let s = digitalWrite PIN_LASER_ARM False s;
          s = s\<lparr>laser_armed := False\<rparr>
      in serial_println ''208 LASER UNARMED'' s)"

definition help_text :: string where
  "help_text =
     ''202 Commands:'' @ [NL] @
     ''202   e           :  emergency stop'' @ [NL] @
     ''202   d [0..254]  :  set laser duty cycle'' @ [NL] @
     ''202   f [n]       :  fire laser for [n] milliseconds'' @ [NL] @
     ''202   p [n]       :  focus by [n] degrees (primary cog)'' @ [NL] @
     ''202   z           :  zero focus coordinates'' @ [NL] @
     ''203 OK''"

definition print_help :: "'m state \<Rightarrow> 'm state" where
  "print_help s = serial_println help_text s"

subsection \<open>The command dispatcher\<close>

text \<open>
  \<^verbatim>\<open>parse_command\<close> gets a C string: the argument here is the characters before the first
  NUL. \<^verbatim>\<open>s[0]\<close> of the empty string is the NUL itself, which is no opcode; \<^verbatim>\<open>s+1\<close> is the
  tail. The \<^verbatim>\<open>int\<close> that \<^verbatim>\<open>atoi\<close> returns is converted to the parameter type of the callee:
  to \<^verbatim>\<open>byte\<close> by truncation, to \<^verbatim>\<open>long\<close> by sign extension.
\<close>

definition parse_command :: "'m CustomStepper \<Rightarrow> string \<Rightarrow> 'm state \<Rightarrow> 'm state" where
  "parse_command lib str s =
     (case str of
        [] \<Rightarrow> serial_println ''501 UNKNOWN COMMAND'' s
      | c # arg \<Rightarrow>
          if c = CHR ''e'' then emergency_stop lib s
          else if c = CHR ''a'' then laser_arm s
          else if c = CHR ''u'' then laser_unarm s
          else if c = CHR ''d'' then laser_set_duty_cycle (ucast (atoi arg)) s
          else if c = CHR ''f'' then laser_fire (scast (atoi arg)) s
          else if c = CHR ''p'' then step_focus lib (atoi arg) s
          else if c = CHR ''z'' then step_zero_pos s
          else if c = CHR ''h'' then print_help s
          else serial_println ''501 UNKNOWN COMMAND'' s)"

subsection \<open>The line reader\<close>

definition c_str :: "char list \<Rightarrow> string" where
  "c_str buf = takeWhile (\<lambda>c. c \<noteq> NUL) buf"

text \<open>
  One pass through the body of the \<^verbatim>\<open>while\<close> loop of \<^verbatim>\<open>read_serial\<close>, for the byte \<open>c\<close> that
  \<^verbatim>\<open>Serial.read()\<close> delivers. \<open>Inl\<close> is a \<^verbatim>\<open>return\<close>, \<open>Inr\<close> goes on to the next test of the loop
  condition with the new value of \<^verbatim>\<open>loop_count\<close>. The byte is stored at the cursor first, in
  either mode, and the tests of \<^verbatim>\<open>buffer[buffer_offset]\<close> read it back. The cursor is inside
  the buffer whenever the function is entered (\<open>buffer_ok\<close> below, kept by every call); there
  the list update is the array store. \<^verbatim>\<open>loop_count\<close> starts at 0 in every call and the function
  returns when it is 80, so the \<^verbatim>\<open>int\<close> never overflows and is an integer here.
\<close>

definition read_serial_step ::
  "'m CustomStepper \<Rightarrow> int \<Rightarrow> char \<Rightarrow> 'm state \<Rightarrow> 'm state + int \<times> 'm state" where
  "read_serial_step lib loop_count c s =
     (let s = s\<lparr>buffer := (buffer s)[buffer_offset s := c]\<rparr>;
          loop_count = (if overflow_mode s then loop_count + 1 else loop_count)
      in if overflow_mode s \<and> NL = buffer s ! buffer_offset s then
           Inl (s\<lparr>overflow_mode := False\<rparr>)
         else if overflow_mode s \<and> loop_count = int SERIAL_BUFFER_SIZE then
           Inl (serial_println ''510 OVERFLOW'' s)
         else if NL = buffer s ! buffer_offset s then
           let s = s\<lparr>buffer := (buffer s)[buffer_offset s := NUL]\<rparr>;
               s = s\<lparr>buffer_offset := 0\<rparr>;
               s = s\<lparr>dispatched := dispatched s @ [c_str (buffer s)]\<rparr>
           in Inl (parse_command lib (c_str (buffer s)) s)
         else
           let s = s\<lparr>buffer_offset := buffer_offset s + 1\<rparr>
           in if SERIAL_BUFFER_SIZE = buffer_offset s then
                let s = s\<lparr>buffer_offset := 0\<rparr>;
                    s = s\<lparr>overflow_mode := True\<rparr>
                in Inl (serial_println ''510 OVERFLOW'' s)
              else Inr (loop_count, s))"

text \<open>
  The loop runs while \<^verbatim>\<open>Serial.available()\<close>: over the bytes of the receive queue, until a
  \<^verbatim>\<open>return\<close>. The result is the bytes left in the queue and the state.
\<close>

fun read_serial_loop ::
  "'m CustomStepper \<Rightarrow> int \<Rightarrow> char list \<Rightarrow> 'm state \<Rightarrow> char list \<times> 'm state" where
  "read_serial_loop lib loop_count [] s = ([], s)"
| "read_serial_loop lib loop_count (c # cs) s =
     (case read_serial_step lib loop_count c s of
        Inl s' \<Rightarrow> (cs, s')
      | Inr (loop_count', s') \<Rightarrow> read_serial_loop lib loop_count' cs s')"

definition read_serial :: "'m CustomStepper \<Rightarrow> 'm state \<Rightarrow> 'm state" where
  "read_serial lib s =
     (case read_serial_loop lib 0 (serial_in s) s of
        (rest, s') \<Rightarrow> s'\<lparr>serial_in := rest\<rparr>)"

subsection \<open>\<^verbatim>\<open>loop\<close>\<close>

definition loop :: "'m CustomStepper \<Rightarrow> 'm state \<Rightarrow> 'm state" where
  "loop lib s =
     (let s = read_serial lib s
      in if \<not> isDone lib (stepper s) then
           let s = s\<lparr>stepper := run lib (stepper s)\<rparr>
           in if isDone lib (stepper s) then
                let s = s\<lparr>stepper_run := False\<rparr>;
                    s = serial_print ''201 FOCUS DONE, pos = '' s
                in serial_println (dec_int (sint (stepper_pos s))) s
              else s
         else s)"

subsection \<open>The second variant of the sketch\<close>

text \<open>
  The repository holds a second variant of the sketch, for a laser without the arm and duty
  cycle commands. It has the same line reader, \<^verbatim>\<open>step_focus\<close> and \<^verbatim>\<open>loop\<close>. Its
  \<^verbatim>\<open>step_zero_pos\<close> differs: it clears the position first and prints it afterwards, under the
  status code 201. It touches only globals that both variants have.
\<close>

definition step_zero_pos_part_000 :: "'m state \<Rightarrow> 'm state" where
  "step_zero_pos_part_000 s =
     (let s = s\<lparr>stepper_pos := 0\<rparr>;
          s = serial_print ''201 FOCUS pos = '' s
      in serial_println (dec_int (sint (stepper_pos s))) s)"

subsection \<open>Notions used in the statements\<close>

text \<open>
  The buffer has its declared size and the cursor is inside it. This holds in every
  reachable state (lemma \<open>reachable_buffer_ok\<close>).
\<close>

definition buffer_ok :: "'m state \<Rightarrow> bool" where
  "buffer_ok s =
     (length (buffer s) = SERIAL_BUFFER_SIZE \<and> buffer_offset s < SERIAL_BUFFER_SIZE)"

text \<open>\<open>store buf k cs\<close> is \<open>buf\<close> after the bytes \<open>cs\<close> were stored from index \<open>k\<close> on.\<close>

fun store :: "char list \<Rightarrow> nat \<Rightarrow> char list \<Rightarrow> char list" where
  "store buf k [] = buf"
| "store buf k (c # cs) = store (buf[k := c]) (Suc k) cs"

text \<open>
  The device state of the specification: the laser state (armed flag, duty cycle) and the
  stepper state (running flag, tracked position, the library object).
\<close>

definition device_state :: "'m state \<Rightarrow> bool \<times> byte \<times> bool \<times> c_long \<times> 'm" where
  "device_state s =
     (laser_armed s, laser_duty_cycle s, stepper_run s, stepper_pos s, stepper s)"

text \<open>
  The states the sketch reaches: \<^verbatim>\<open>setup\<close> runs once on the power-on state, then bytes arrive
  on the serial line and \<^verbatim>\<open>loop\<close> runs, in any interleaving.
\<close>

inductive reachable :: "'m CustomStepper \<Rightarrow> 'm state \<Rightarrow> bool"
  for lib :: "'m CustomStepper" where
  booted: "reachable lib (setup_sketch lib (power_on m))"
| received: "reachable lib s \<Longrightarrow> reachable lib (s\<lparr>serial_in := serial_in s @ bytes\<rparr>)"
| iterated: "reachable lib s \<Longrightarrow> reachable lib (loop lib s)"

text \<open>While the sketch believes the stepper is running, the library has not reported completion.\<close>

definition motion_ok :: "'m CustomStepper \<Rightarrow> 'm state \<Rightarrow> bool" where
  "motion_ok lib s = (stepper_run s \<longrightarrow> \<not> isDone lib (stepper s))"

subsection \<open>A stepper to run examples with\<close>

text \<open>
  An instance of the library interface: the object is the number of polls the motion still
  needs and the direction. A rotation request always needs at least one poll.
\<close>

definition sim_stepper :: "(nat \<times> direction) CustomStepper" where
  "sim_stepper =
     \<lparr>isDone = (\<lambda>(r, d). r = 0),
      setDirection = (\<lambda>d' (r, d). (r, d')),
      rotateDegrees = (\<lambda>x (r, d). (Suc (nat \<bar>x\<bar>), d)),
      run = (\<lambda>(r, d). (r - 1, d)),
      setRPM = id, setSPR = id\<rparr>"

definition sim_boot :: "(nat \<times> direction) state" where
  "sim_boot = setup_sketch sim_stepper (power_on (0, CW))"

text \<open>
  A reachable state with the stepper in motion: the command \<^verbatim>\<open>p90\<close> has arrived and \<^verbatim>\<open>loop\<close>
  has run once.
\<close>

definition sim_moving :: "(nat \<times> direction) state" where
  "sim_moving = loop sim_stepper (sim_boot\<lparr>serial_in := serial_in sim_boot @ ''p90'' @ [NL]\<rparr>)"

text \<open>
  Inputs for the line reader: 100 bytes \<^verbatim>\<open>x\<close>, a newline and the command \<^verbatim>\<open>a\<close>; 160 bytes
  \<^verbatim>\<open>x\<close>; and two states in overflow mode, one with 80 more bytes \<^verbatim>\<open>x\<close> waiting, one with 20
  bytes \<^verbatim>\<open>x\<close>, a newline and the command \<^verbatim>\<open>a\<close> waiting.
\<close>

definition sim_flood :: "(nat \<times> direction) state" where
  "sim_flood =
     sim_boot\<lparr>serial_in :=
       replicate 80 (CHR ''x'') @ replicate 20 (CHR ''x'') @ NL # ''a'' @ [NL]\<rparr>"

definition sim_flood_160 :: "(nat \<times> direction) state" where
  "sim_flood_160 = sim_boot\<lparr>serial_in := replicate 80 (CHR ''x'') @ replicate 80 (CHR ''x'')\<rparr>"

definition sim_discarding :: "(nat \<times> direction) state" where
  "sim_discarding =
     sim_boot\<lparr>buffer := replicate 80 (CHR ''x''), overflow_mode := True,
       serial_in := replicate 80 (CHR ''x'')\<rparr>"

definition sim_recovering :: "(nat \<times> direction) state" where
  "sim_recovering =
     sim_boot\<lparr>buffer := replicate 80 (CHR ''x''), overflow_mode := True,
       serial_in := replicate 20 (CHR ''x'') @ NL # ''a'' @ [NL]\<rparr>"

section \<open>Lemmas\<close>

subsection \<open>Machine arithmetic\<close>

lemma sint_range_16: "- 32768 \<le> sint (n :: c_int) \<and> sint n < 32768"
  using sint_ge [of n] sint_lt [of n] by simp

lemma sint_neg_16: "sint (n :: c_int) \<noteq> - 32768 \<Longrightarrow> sint (- n) = - sint n"
  using sint_range_16 [of n]
  by (simp add: sint_word_minus signed_take_bit_int_eq_self)

lemma sint_c_abs: "sint n \<noteq> - 32768 \<Longrightarrow> sint (c_abs n) = \<bar>sint n\<bar>"
  by (simp add: c_abs_def sint_neg_16)

lemma c_abs_int_min: "sint (c_abs (- 32768)) = - 32768"
  by (simp add: c_abs_def)

lemma uint_ucast_byte: "uint (ucast (w :: c_int) :: byte) = sint w mod 256"
proof -
  have "uint (ucast w :: byte) = take_bit 8 (uint w)"
    by (simp add: unsigned_ucast_eq)
  also have "\<dots> = take_bit 8 (sint w)"
    by (simp add: sint_uint take_bit_signed_take_bit)
  finally show ?thesis by (simp add: take_bit_eq_mod)
qed

lemma sint_scast_long: "sint (scast (n :: c_int) :: c_long) = sint n"
  by (simp add: sint_up_scast is_up)

lemma sint_pos_add:
  assumes "- 2147483648 \<le> sint p + sint n" and "sint p + sint n < 2147483648"
  shows "sint (p + scast (n :: c_int) :: c_long) = sint p + sint n"
  using assms by (simp add: sint_word_ariths sint_scast_long signed_take_bit_int_eq_self)

subsection \<open>Decimal output and \<^verbatim>\<open>atoi\<close> on the inputs of the examples\<close>

lemma dec_int_0: "dec_int 0 = ''0''"
  by (simp add: dec_int_def dec_nat.simps)

lemma dec_int_int_min: "dec_int (- 32768) = ''-32768''"
  by (simp add: dec_int_def dec_nat.simps)

lemma dec_int_50: "dec_int 50 = ''50''"
  by (simp add: dec_int_def dec_nat.simps)

lemma dec_int_90: "dec_int 90 = ''90''"
  by (simp add: dec_int_def dec_nat.simps)

lemma dec_int_1440: "dec_int MAX_FOCUS_ROTATION = ''1440''"
  by (simp add: dec_int_def dec_nat.simps MAX_FOCUS_ROTATION_def)

lemma dec_nat_44: "dec_nat 44 = ''44''"
  by (simp add: dec_nat.simps)

lemma dec_nat_100: "dec_nat 100 = ''100''"
  by (simp add: dec_nat.simps)

lemma atoi_int_min: "atoi ''-32768'' = - 32768"
  by (simp add: atoi_def isspace_def isdigit_def digit_value_def)

lemma atoi_300: "atoi ''300'' = 300"
  by (simp add: atoi_def isspace_def isdigit_def digit_value_def)

lemma atoi_90: "atoi ''90'' = 90"
  by (simp add: atoi_def isspace_def isdigit_def digit_value_def)

subsection \<open>The device operations\<close>

lemmas op_defs =
  emergency_stop_def laser_arm_def laser_unarm_def laser_set_duty_cycle_def laser_fire_def
  step_focus_def step_zero_pos_def print_help_def serial_println_def serial_print_def
  digitalWrite_def analogWrite_def delay_def

text \<open>
  \<^verbatim>\<open>step_focus\<close> for every argument but the least \<^verbatim>\<open>int\<close>: a request beyond the bound is
  rejected and changes nothing but the output; a request within the bound turns the stepper
  by \<open>\<bar>n\<bar>\<close> degrees in the direction the sign selects and adds \<open>n\<close> to the position at once.
\<close>

lemma step_focus_rejected:
  assumes "sint n \<noteq> - 32768" and "\<bar>sint n\<bar> > MAX_FOCUS_ROTATION"
  shows "step_focus lib n s =
     s\<lparr>serial_out := serial_out s @ ''521 MAXIMUM FOCUS ROTATION IS 1440'' @ CRLF\<rparr>"
  using assms
  by (simp add: step_focus_def sint_c_abs serial_println_def serial_print_def dec_int_1440)

lemma step_focus_accepted:
  assumes "\<bar>sint n\<bar> \<le> MAX_FOCUS_ROTATION"
  shows "step_focus lib n s =
     s\<lparr>stepper := rotateDegrees lib \<bar>sint n\<bar>
                    (setDirection lib (if 0 < sint n then CCW else CW) (stepper s)),
       serial_out := serial_out s @ ''204 FOCUS '' @ dec_int (sint n) @ CRLF,
       stepper_pos := stepper_pos s + scast n,
       stepper_run := True\<rparr>"
proof -
  from assms have "sint n \<noteq> - 32768" by (auto simp add: MAX_FOCUS_ROTATION_def)
  with assms show ?thesis
    by (simp add: step_focus_def sint_c_abs sint_neg_16 serial_println_def serial_print_def
        Let_def)
qed

lemma step_focus_int_min:
  "step_focus lib (- 32768) s =
     s\<lparr>stepper := rotateDegrees lib (- 32768) (setDirection lib CW (stepper s)),
       serial_out := serial_out s @ ''204 FOCUS -32768'' @ CRLF,
       stepper_pos := stepper_pos s - 32768,
       stepper_run := True\<rparr>"
  by (simp add: step_focus_def c_abs_int_min MAX_FOCUS_ROTATION_def Let_def serial_print_def
      serial_println_def dec_int_int_min)

lemma parse_command_default:
  "str = [] \<or> hd str \<notin> set ''eaudfpzh'' \<Longrightarrow>
   parse_command lib str s = s\<lparr>serial_out := serial_out s @ ''501 UNKNOWN COMMAND'' @ CRLF\<rparr>"
  by (cases str) (auto simp add: parse_command_def serial_println_def)

lemma parse_command_reader_fields:
  "buffer (parse_command lib str s) = buffer s \<and>
   buffer_offset (parse_command lib str s) = buffer_offset s \<and>
   overflow_mode (parse_command lib str s) = overflow_mode s \<and>
   serial_in (parse_command lib str s) = serial_in s \<and>
   dispatched (parse_command lib str s) = dispatched s"
  by (simp add: parse_command_def op_defs Let_def split: list.split)

subsection \<open>The running flag follows the library\<close>

lemma parse_command_motion_ok:
  assumes "\<And>x m. \<not> isDone lib (rotateDegrees lib x m)" and "motion_ok lib s"
  shows "motion_ok lib (parse_command lib str s)"
  using assms
  by (auto simp add: motion_ok_def parse_command_def op_defs Let_def split: list.split)

lemma read_serial_step_motion_ok:
  assumes "\<And>x m. \<not> isDone lib (rotateDegrees lib x m)" and "motion_ok lib s"
  shows "case read_serial_step lib lc c s of Inl s' \<Rightarrow> motion_ok lib s'
         | Inr (lc', s') \<Rightarrow> motion_ok lib s'"
proof -
  have "motion_ok lib (s\<lparr>buffer := b, buffer_offset := k, dispatched := d\<rparr>)" for b k d
    using assms(2) by (simp add: motion_ok_def)
  from parse_command_motion_ok [OF assms(1) this] assms(2) show ?thesis
    by (simp add: read_serial_step_def Let_def serial_println_def) (simp add: motion_ok_def)
qed

lemma read_serial_loop_motion_ok:
  assumes "\<And>x m. \<not> isDone lib (rotateDegrees lib x m)" and "motion_ok lib s"
  shows "motion_ok lib (snd (read_serial_loop lib lc inp s))"
  using assms(2)
proof (induction inp arbitrary: lc s)
  case Nil
  then show ?case by simp
next
  case (Cons c inp)
  from read_serial_step_motion_ok [OF assms(1) Cons.prems, of lc c] Cons.IH
  show ?case by (auto split: sum.splits)
qed

lemma read_serial_motion_ok:
  assumes "\<And>x m. \<not> isDone lib (rotateDegrees lib x m)" and "motion_ok lib s"
  shows "motion_ok lib (read_serial lib s)"
  using read_serial_loop_motion_ok [OF assms, of 0 "serial_in s"]
  by (auto simp add: read_serial_def motion_ok_def split: prod.splits)

lemma loop_motion_ok:
  assumes "\<And>x m. \<not> isDone lib (rotateDegrees lib x m)" and "motion_ok lib s"
  shows "motion_ok lib (loop lib s)"
  using read_serial_motion_ok [OF assms]
  by (auto simp add: loop_def Let_def motion_ok_def serial_println_def serial_print_def)

lemma reachable_motion_ok:
  assumes "\<And>x m. \<not> isDone lib (rotateDegrees lib x m)" and "reachable lib s"
  shows "motion_ok lib s"
  using assms(2)
proof (induction rule: reachable.induct)
  case (booted m)
  show ?case
    by (simp add: motion_ok_def setup_sketch_def power_on_def op_defs Let_def)
next
  case (received s bytes)
  then show ?case by (simp add: motion_ok_def)
next
  case (iterated s)
  from loop_motion_ok [OF assms(1) iterated.IH] show ?case .
qed

lemma emergency_stop_laser_off:
  "\<not> laser_armed (emergency_stop lib s) \<and> laser_duty_cycle (emergency_stop lib s) = 0"
  by (simp add: op_defs Let_def)

lemma emergency_stop_idle:
  "motion_ok lib s \<Longrightarrow> \<not> stepper_run (emergency_stop lib s)"
  by (auto simp add: op_defs Let_def motion_ok_def)

lemma emergency_stop_twice:
  assumes "\<And>m. setDirection lib STOP (setDirection lib STOP m) = setDirection lib STOP m"
  shows "device_state (emergency_stop lib (emergency_stop lib s)) =
         device_state (emergency_stop lib s)"
  using assms by (simp add: op_defs Let_def device_state_def)

subsection \<open>Stores into the buffer\<close>

lemma length_store [simp]: "length (store buf k cs) = length buf"
  by (induction cs arbitrary: buf k) auto

lemma store_append: "store buf k (xs @ ys) = store (store buf k xs) (k + length xs) ys"
  by (induction xs arbitrary: buf k) auto

lemma store_eq:
  "k + length cs \<le> length buf \<Longrightarrow> store buf k cs = take k buf @ cs @ drop (k + length cs) buf"
proof (induction cs arbitrary: buf k)
  case Nil
  then show ?case by simp
next
  case (Cons c cs)
  then have "k < length buf" by simp
  then have "take (Suc k) (buf[k := c]) = take k buf @ [c]"
    by (simp add: take_Suc_conv_app_nth)
  with Cons show ?case by simp
qed

lemma store_whole: "length xs = length buf \<Longrightarrow> store buf 0 xs = xs"
  by (simp add: store_eq)

lemma c_str_cut: "c_str (xs @ NUL # ys) = c_str xs"
  by (induction xs) (auto simp add: c_str_def)

subsection \<open>One pass of the loop body, case by case\<close>

lemma step_char:
  "\<not> overflow_mode s \<Longrightarrow> c \<noteq> NL \<Longrightarrow> buffer_offset s < length (buffer s) \<Longrightarrow>
   Suc (buffer_offset s) \<noteq> SERIAL_BUFFER_SIZE \<Longrightarrow>
   read_serial_step lib lc c s =
     Inr (lc, s\<lparr>buffer := (buffer s)[buffer_offset s := c],
                 buffer_offset := Suc (buffer_offset s)\<rparr>)"
  by (auto simp add: read_serial_step_def Let_def)

lemma step_full:
  "\<not> overflow_mode s \<Longrightarrow> c \<noteq> NL \<Longrightarrow> buffer_offset s < length (buffer s) \<Longrightarrow>
   Suc (buffer_offset s) = SERIAL_BUFFER_SIZE \<Longrightarrow>
   read_serial_step lib lc c s =
     Inl (s\<lparr>buffer := (buffer s)[buffer_offset s := c], buffer_offset := 0,
            overflow_mode := True, serial_out := serial_out s @ ''510 OVERFLOW'' @ CRLF\<rparr>)"
  by (auto simp add: read_serial_step_def Let_def serial_println_def)

lemma step_newline:
  "\<not> overflow_mode s \<Longrightarrow> buffer_offset s < length (buffer s) \<Longrightarrow>
   read_serial_step lib lc NL s =
     Inl (parse_command lib (c_str ((buffer s)[buffer_offset s := NUL]))
            (s\<lparr>buffer := (buffer s)[buffer_offset s := NUL], buffer_offset := 0,
               dispatched := dispatched s @ [c_str ((buffer s)[buffer_offset s := NUL])]\<rparr>))"
  by (simp add: read_serial_step_def Let_def)

lemma step_overflow_newline:
  "overflow_mode s \<Longrightarrow> buffer_offset s < length (buffer s) \<Longrightarrow>
   read_serial_step lib lc NL s =
     Inl (s\<lparr>buffer := (buffer s)[buffer_offset s := NL], overflow_mode := False\<rparr>)"
  by (simp add: read_serial_step_def Let_def)

lemma step_overflow_bound:
  "overflow_mode s \<Longrightarrow> c \<noteq> NL \<Longrightarrow> buffer_offset s < length (buffer s) \<Longrightarrow>
   lc + 1 = int SERIAL_BUFFER_SIZE \<Longrightarrow>
   read_serial_step lib lc c s =
     Inl (s\<lparr>buffer := (buffer s)[buffer_offset s := c],
            serial_out := serial_out s @ ''510 OVERFLOW'' @ CRLF\<rparr>)"
  by (auto simp add: read_serial_step_def Let_def serial_println_def)

lemma step_overflow_wrap:
  "overflow_mode s \<Longrightarrow> c \<noteq> NL \<Longrightarrow> buffer_offset s < length (buffer s) \<Longrightarrow>
   lc + 1 \<noteq> int SERIAL_BUFFER_SIZE \<Longrightarrow> Suc (buffer_offset s) = SERIAL_BUFFER_SIZE \<Longrightarrow>
   read_serial_step lib lc c s =
     Inl (s\<lparr>buffer := (buffer s)[buffer_offset s := c], buffer_offset := 0,
            overflow_mode := True, serial_out := serial_out s @ ''510 OVERFLOW'' @ CRLF\<rparr>)"
  by (auto simp add: read_serial_step_def Let_def serial_println_def)

lemma step_overflow_char:
  "overflow_mode s \<Longrightarrow> c \<noteq> NL \<Longrightarrow> buffer_offset s < length (buffer s) \<Longrightarrow>
   lc + 1 \<noteq> int SERIAL_BUFFER_SIZE \<Longrightarrow> Suc (buffer_offset s) \<noteq> SERIAL_BUFFER_SIZE \<Longrightarrow>
   read_serial_step lib lc c s =
     Inr (lc + 1, s\<lparr>buffer := (buffer s)[buffer_offset s := c],
                     buffer_offset := Suc (buffer_offset s)\<rparr>)"
  by (auto simp add: read_serial_step_def Let_def)

subsection \<open>Runs of the loop\<close>

lemma loop_chars:
  "\<not> overflow_mode s \<Longrightarrow> NL \<notin> set pre \<Longrightarrow> length (buffer s) = SERIAL_BUFFER_SIZE \<Longrightarrow>
   buffer_offset s + length pre < SERIAL_BUFFER_SIZE \<Longrightarrow>
   read_serial_loop lib lc (pre @ rest) s =
     read_serial_loop lib lc rest
       (s\<lparr>buffer := store (buffer s) (buffer_offset s) pre,
          buffer_offset := buffer_offset s + length pre\<rparr>)"
proof (induction pre arbitrary: s)
  case Nil
  then show ?case by simp
next
  case (Cons c pre)
  let ?s = "s\<lparr>buffer := (buffer s)[buffer_offset s := c],
              buffer_offset := Suc (buffer_offset s)\<rparr>"
  from Cons.prems have step: "read_serial_step lib lc c s = Inr (lc, ?s)"
    by (intro step_char) auto
  from Cons.prems have "read_serial_loop lib lc (pre @ rest) ?s =
     read_serial_loop lib lc rest
       (?s\<lparr>buffer := store (buffer ?s) (buffer_offset ?s) pre,
           buffer_offset := buffer_offset ?s + length pre\<rparr>)"
    by (intro Cons.IH) auto
  with step show ?case by simp
qed

lemma loop_overflow_chars:
  "overflow_mode s \<Longrightarrow> NL \<notin> set pre \<Longrightarrow> length (buffer s) = SERIAL_BUFFER_SIZE \<Longrightarrow>
   buffer_offset s + length pre < SERIAL_BUFFER_SIZE \<Longrightarrow>
   0 \<le> lc \<Longrightarrow> lc + int (length pre) < int SERIAL_BUFFER_SIZE \<Longrightarrow>
   read_serial_loop lib lc (pre @ rest) s =
     read_serial_loop lib (lc + int (length pre)) rest
       (s\<lparr>buffer := store (buffer s) (buffer_offset s) pre,
          buffer_offset := buffer_offset s + length pre\<rparr>)"
proof (induction pre arbitrary: s lc)
  case Nil
  then show ?case by simp
next
  case (Cons c pre)
  let ?s = "s\<lparr>buffer := (buffer s)[buffer_offset s := c],
              buffer_offset := Suc (buffer_offset s)\<rparr>"
  from Cons.prems have step: "read_serial_step lib lc c s = Inr (lc + 1, ?s)"
    by (intro step_overflow_char) auto
  from Cons.prems have "read_serial_loop lib (lc + 1) (pre @ rest) ?s =
     read_serial_loop lib (lc + 1 + int (length pre)) rest
       (?s\<lparr>buffer := store (buffer ?s) (buffer_offset ?s) pre,
           buffer_offset := buffer_offset ?s + length pre\<rparr>)"
    by (intro Cons.IH) auto
  with step show ?case by (simp add: add.assoc)
qed

lemma loop_fills_buffer:
  assumes "\<not> overflow_mode s" and "NL \<notin> set pre" and "c \<noteq> NL"
    and "length (buffer s) = SERIAL_BUFFER_SIZE"
    and "Suc (buffer_offset s + length pre) = SERIAL_BUFFER_SIZE"
  shows "read_serial_loop lib lc (pre @ c # rest) s =
     (rest, s\<lparr>buffer := store (buffer s) (buffer_offset s) (pre @ [c]), buffer_offset := 0,
              overflow_mode := True, serial_out := serial_out s @ ''510 OVERFLOW'' @ CRLF\<rparr>)"
proof -
  let ?s = "s\<lparr>buffer := store (buffer s) (buffer_offset s) pre,
              buffer_offset := buffer_offset s + length pre\<rparr>"
  have "read_serial_loop lib lc (pre @ c # rest) s = read_serial_loop lib lc (c # rest) ?s"
    using assms by (intro loop_chars) auto
  moreover have "read_serial_step lib lc c ?s =
     Inl (?s\<lparr>buffer := (buffer ?s)[buffer_offset ?s := c], buffer_offset := 0,
             overflow_mode := True, serial_out := serial_out ?s @ ''510 OVERFLOW'' @ CRLF\<rparr>)"
    using assms by (intro step_full) auto
  ultimately show ?thesis by (simp add: store_append)
qed

lemma loop_line:
  assumes "\<not> overflow_mode s" and "NL \<notin> set pre"
    and "length (buffer s) = SERIAL_BUFFER_SIZE"
    and "buffer_offset s + length pre < SERIAL_BUFFER_SIZE"
  shows "read_serial_loop lib lc (pre @ NL # rest) s =
     (rest, parse_command lib (c_str (store (buffer s) (buffer_offset s) (pre @ [NUL])))
              (s\<lparr>buffer := store (buffer s) (buffer_offset s) (pre @ [NUL]), buffer_offset := 0,
                 dispatched := dispatched s @
                   [c_str (store (buffer s) (buffer_offset s) (pre @ [NUL]))]\<rparr>))"
proof -
  let ?s = "s\<lparr>buffer := store (buffer s) (buffer_offset s) pre,
              buffer_offset := buffer_offset s + length pre\<rparr>"
  have "read_serial_loop lib lc (pre @ NL # rest) s = read_serial_loop lib lc (NL # rest) ?s"
    using assms by (intro loop_chars) auto
  moreover have "read_serial_step lib lc NL ?s =
     Inl (parse_command lib (c_str ((buffer ?s)[buffer_offset ?s := NUL]))
            (?s\<lparr>buffer := (buffer ?s)[buffer_offset ?s := NUL], buffer_offset := 0,
                dispatched := dispatched ?s @ [c_str ((buffer ?s)[buffer_offset ?s := NUL])]\<rparr>))"
    using assms by (intro step_newline) auto
  ultimately show ?thesis by (simp add: store_append)
qed

lemma loop_overflow_newline:
  assumes "overflow_mode s" and "NL \<notin> set pre"
    and "length (buffer s) = SERIAL_BUFFER_SIZE"
    and "buffer_offset s + length pre < SERIAL_BUFFER_SIZE"
    and "0 \<le> lc" and "lc + int (length pre) < int SERIAL_BUFFER_SIZE"
  shows "read_serial_loop lib lc (pre @ NL # rest) s =
     (rest, s\<lparr>buffer := store (buffer s) (buffer_offset s) (pre @ [NL]),
              buffer_offset := buffer_offset s + length pre, overflow_mode := False\<rparr>)"
proof -
  let ?s = "s\<lparr>buffer := store (buffer s) (buffer_offset s) pre,
              buffer_offset := buffer_offset s + length pre\<rparr>"
  have "read_serial_loop lib lc (pre @ NL # rest) s =
     read_serial_loop lib (lc + int (length pre)) (NL # rest) ?s"
    using assms by (intro loop_overflow_chars) auto
  moreover have "read_serial_step lib (lc + int (length pre)) NL ?s =
     Inl (?s\<lparr>buffer := (buffer ?s)[buffer_offset ?s := NL], overflow_mode := False\<rparr>)"
    using assms by (intro step_overflow_newline) auto
  ultimately show ?thesis by (simp add: store_append)
qed

lemma loop_overflow_exhausted:
  assumes "overflow_mode s" and "NL \<notin> set pre"
    and "length (buffer s) = SERIAL_BUFFER_SIZE"
    and "buffer_offset s + length pre < SERIAL_BUFFER_SIZE"
    and "0 \<le> lc" and "lc + int (length pre) < int SERIAL_BUFFER_SIZE"
  shows "read_serial_loop lib lc pre s =
     ([], s\<lparr>buffer := store (buffer s) (buffer_offset s) pre,
            buffer_offset := buffer_offset s + length pre\<rparr>)"
  using loop_overflow_chars [OF assms, of lib "[]"] by simp

lemma loop_overflow_bound:
  assumes "overflow_mode s" and "NL \<notin> set pre" and "c \<noteq> NL"
    and "length (buffer s) = SERIAL_BUFFER_SIZE"
    and "buffer_offset s + length pre < SERIAL_BUFFER_SIZE"
    and "0 \<le> lc" and "lc + int (length pre) + 1 = int SERIAL_BUFFER_SIZE"
  shows "read_serial_loop lib lc (pre @ c # rest) s =
     (rest, s\<lparr>buffer := store (buffer s) (buffer_offset s) (pre @ [c]),
              buffer_offset := buffer_offset s + length pre,
              serial_out := serial_out s @ ''510 OVERFLOW'' @ CRLF\<rparr>)"
proof -
  let ?s = "s\<lparr>buffer := store (buffer s) (buffer_offset s) pre,
              buffer_offset := buffer_offset s + length pre\<rparr>"
  have "read_serial_loop lib lc (pre @ c # rest) s =
     read_serial_loop lib (lc + int (length pre)) (c # rest) ?s"
    using assms by (intro loop_overflow_chars) auto
  moreover have "read_serial_step lib (lc + int (length pre)) c ?s =
     Inl (?s\<lparr>buffer := (buffer ?s)[buffer_offset ?s := c],
             serial_out := serial_out ?s @ ''510 OVERFLOW'' @ CRLF\<rparr>)"
    using assms by (intro step_overflow_bound) auto
  ultimately show ?thesis by (simp add: store_append)
qed

lemma loop_overflow_wrap:
  assumes "overflow_mode s" and "NL \<notin> set pre" and "c \<noteq> NL"
    and "length (buffer s) = SERIAL_BUFFER_SIZE"
    and "Suc (buffer_offset s + length pre) = SERIAL_BUFFER_SIZE"
    and "0 \<le> lc" and "lc + int (length pre) + 1 < int SERIAL_BUFFER_SIZE"
  shows "read_serial_loop lib lc (pre @ c # rest) s =
     (rest, s\<lparr>buffer := store (buffer s) (buffer_offset s) (pre @ [c]), buffer_offset := 0,
              overflow_mode := True, serial_out := serial_out s @ ''510 OVERFLOW'' @ CRLF\<rparr>)"
proof -
  let ?s = "s\<lparr>buffer := store (buffer s) (buffer_offset s) pre,
              buffer_offset := buffer_offset s + length pre\<rparr>"
  have "read_serial_loop lib lc (pre @ c # rest) s =
     read_serial_loop lib (lc + int (length pre)) (c # rest) ?s"
    using assms by (intro loop_overflow_chars) auto
  moreover have "read_serial_step lib (lc + int (length pre)) c ?s =
     Inl (?s\<lparr>buffer := (buffer ?s)[buffer_offset ?s := c], buffer_offset := 0,
             overflow_mode := True, serial_out := serial_out ?s @ ''510 OVERFLOW'' @ CRLF\<rparr>)"
    using assms by (intro step_overflow_wrap) auto
  ultimately show ?thesis by (simp add: store_append)
qed

subsection \<open>Calls of \<^verbatim>\<open>read_serial\<close>\<close>

lemma read_serial_step_buffer_ok:
  assumes "buffer_ok s"
  shows "case read_serial_step lib lc c s of Inl s' \<Rightarrow> buffer_ok s'
         | Inr (lc', s') \<Rightarrow> buffer_ok s'"
proof -
  have "buffer_ok (parse_command lib str t) = buffer_ok t" for str and t :: "'a state"
    by (simp add: buffer_ok_def parse_command_reader_fields)
  with assms show ?thesis
    by (auto simp add: read_serial_step_def Let_def serial_println_def buffer_ok_def
        SERIAL_BUFFER_SIZE_def)
qed

lemma read_serial_loop_buffer_ok:
  "buffer_ok s \<Longrightarrow> buffer_ok (snd (read_serial_loop lib lc inp s))"
proof (induction inp arbitrary: lc s)
  case Nil
  then show ?case by simp
next
  case (Cons c inp)
  from read_serial_step_buffer_ok [OF Cons.prems, of lib lc c] Cons.IH
  show ?case by (auto split: sum.splits)
qed

lemma read_serial_buffer_ok: "buffer_ok s \<Longrightarrow> buffer_ok (read_serial lib s)"
  using read_serial_loop_buffer_ok [of s lib 0 "serial_in s"]
  by (auto simp add: read_serial_def buffer_ok_def split: prod.splits)

lemma loop_buffer_ok: "buffer_ok s \<Longrightarrow> buffer_ok (loop lib s)"
  using read_serial_buffer_ok [of s lib]
  by (simp add: loop_def Let_def buffer_ok_def serial_println_def serial_print_def)

text \<open>Every reachable state has the buffer and the cursor in order.\<close>

lemma reachable_buffer_ok: "reachable lib s \<Longrightarrow> buffer_ok s"
proof (induction rule: reachable.induct)
  case (booted m)
  show ?case
    by (simp add: buffer_ok_def setup_sketch_def power_on_def op_defs Let_def
        SERIAL_BUFFER_SIZE_def)
next
  case (received s bytes)
  then show ?case by (simp add: buffer_ok_def)
next
  case (iterated s)
  from loop_buffer_ok [OF iterated.IH] show ?case .
qed

lemma read_serial_step_dispatched:
  "case read_serial_step lib lc c s of
     Inl s' \<Rightarrow> length (dispatched s') \<le> Suc (length (dispatched s))
   | Inr (lc', s') \<Rightarrow> dispatched s' = dispatched s"
  by (simp add: read_serial_step_def Let_def serial_println_def parse_command_reader_fields)

lemma read_serial_loop_dispatched:
  "length (dispatched (snd (read_serial_loop lib lc inp s))) \<le> Suc (length (dispatched s))"
proof (induction inp arbitrary: lc s)
  case Nil
  then show ?case by simp
next
  case (Cons c inp)
  show ?case
  proof (cases "read_serial_step lib lc c s")
    case (Inl s')
    with read_serial_step_dispatched [where lib = lib and lc = lc and c = c and s = s]
    show ?thesis by simp
  next
    case (Inr p)
    obtain lc' s' where p: "p = (lc', s')" by (cases p)
    with Inr read_serial_step_dispatched [where lib = lib and lc = lc and c = c and s = s]
    have "dispatched s' = dispatched s" by simp
    with Inr p Cons.IH [of lc' s'] show ?thesis by simp
  qed
qed

lemma read_serial_dispatched:
  "length (dispatched (read_serial lib s)) \<le> Suc (length (dispatched s))"
  using read_serial_loop_dispatched [of lib 0 "serial_in s" s]
  by (auto simp add: read_serial_def split: prod.splits)

lemma read_serial_line:
  assumes "buffer_ok s" and "\<not> overflow_mode s" and "NL \<notin> set pre"
    and "buffer_offset s + length pre < SERIAL_BUFFER_SIZE"
    and "serial_in s = pre @ NL # rest"
  shows "read_serial lib s =
     (parse_command lib (c_str (take (buffer_offset s) (buffer s) @ pre))
        (s\<lparr>buffer := take (buffer_offset s) (buffer s) @ pre @
                       NUL # drop (Suc (buffer_offset s + length pre)) (buffer s),
           buffer_offset := 0,
           dispatched := dispatched s @ [c_str (take (buffer_offset s) (buffer s) @ pre)]\<rparr>))
     \<lparr>serial_in := rest\<rparr>"
proof -
  from assms(1) have len: "length (buffer s) = SERIAL_BUFFER_SIZE"
    by (simp add: buffer_ok_def)
  with assms(4) have "buffer_offset s + length (pre @ [NUL]) \<le> length (buffer s)"
    by simp
  then have st: "store (buffer s) (buffer_offset s) (pre @ [NUL]) =
     take (buffer_offset s) (buffer s) @ pre @
       NUL # drop (Suc (buffer_offset s + length pre)) (buffer s)"
    by (simp add: store_eq)
  have cs: "c_str (take (buffer_offset s) (buffer s) @ pre @
       NUL # drop (Suc (buffer_offset s + length pre)) (buffer s)) =
     c_str (take (buffer_offset s) (buffer s) @ pre)"
    using c_str_cut [of "take (buffer_offset s) (buffer s) @ pre"] by simp
  from loop_line [OF assms(2,3) len assms(4), of lib 0 rest] show ?thesis
    by (simp add: read_serial_def assms(5) st cs)
qed

lemma read_serial_fills_buffer:
  assumes "buffer_ok s" and "\<not> overflow_mode s" and "NL \<notin> set xs"
    and "buffer_offset s + length xs = SERIAL_BUFFER_SIZE"
    and "serial_in s = xs @ rest"
  shows "read_serial lib s =
     s\<lparr>buffer := store (buffer s) (buffer_offset s) xs, buffer_offset := 0,
       overflow_mode := True, serial_out := serial_out s @ ''510 OVERFLOW'' @ CRLF,
       serial_in := rest\<rparr>"
proof (cases xs rule: rev_cases)
  case Nil
  with assms(1,4) show ?thesis by (simp add: buffer_ok_def)
next
  case (snoc pre c)
  from assms(1) have len: "length (buffer s) = SERIAL_BUFFER_SIZE"
    by (simp add: buffer_ok_def)
  from snoc assms(3) have nl: "NL \<notin> set pre" "c \<noteq> NL" by auto
  from snoc assms(4) have "Suc (buffer_offset s + length pre) = SERIAL_BUFFER_SIZE" by simp
  from loop_fills_buffer [OF assms(2) nl len this, of lib 0 rest] snoc show ?thesis
    by (simp add: read_serial_def assms(5))
qed

lemma read_serial_overflow_newline:
  assumes "buffer_ok s" and "overflow_mode s" and "NL \<notin> set pre"
    and "buffer_offset s + length pre < SERIAL_BUFFER_SIZE"
    and "serial_in s = pre @ NL # rest"
  shows "read_serial lib s =
     s\<lparr>buffer := store (buffer s) (buffer_offset s) (pre @ [NL]),
       buffer_offset := buffer_offset s + length pre, overflow_mode := False,
       serial_in := rest\<rparr>"
proof -
  from assms(1) have len: "length (buffer s) = SERIAL_BUFFER_SIZE"
    by (simp add: buffer_ok_def)
  from assms(4) have "0 + int (length pre) < int SERIAL_BUFFER_SIZE" by simp
  from loop_overflow_newline [OF assms(2,3) len assms(4) _ this, of lib rest] show ?thesis
    by (simp add: read_serial_def assms(5))
qed

lemma read_serial_overflow_exhausted:
  assumes "buffer_ok s" and "overflow_mode s" and "NL \<notin> set (serial_in s)"
    and "buffer_offset s + length (serial_in s) < SERIAL_BUFFER_SIZE"
  shows "read_serial lib s =
     s\<lparr>buffer := store (buffer s) (buffer_offset s) (serial_in s),
       buffer_offset := buffer_offset s + length (serial_in s), serial_in := []\<rparr>"
proof -
  from assms(1) have len: "length (buffer s) = SERIAL_BUFFER_SIZE"
    by (simp add: buffer_ok_def)
  from assms(4) have "0 + int (length (serial_in s)) < int SERIAL_BUFFER_SIZE" by simp
  from loop_overflow_exhausted [OF assms(2,3) len assms(4) _ this, of lib] show ?thesis
    by (simp add: read_serial_def)
qed

lemma read_serial_overflow_limit:
  assumes "buffer_ok s" and "overflow_mode s" and "NL \<notin> set xs"
    and "buffer_offset s + length xs = SERIAL_BUFFER_SIZE"
    and "serial_in s = xs @ rest"
  shows "read_serial lib s =
     s\<lparr>buffer := store (buffer s) (buffer_offset s) xs,
       buffer_offset := (if buffer_offset s = 0 then SERIAL_BUFFER_SIZE - 1 else 0),
       serial_out := serial_out s @ ''510 OVERFLOW'' @ CRLF, serial_in := rest\<rparr>"
proof (cases xs rule: rev_cases)
  case Nil
  with assms(1,4) show ?thesis by (simp add: buffer_ok_def)
next
  case (snoc pre c)
  from assms(1) have len: "length (buffer s) = SERIAL_BUFFER_SIZE"
    by (simp add: buffer_ok_def)
  from snoc assms(3) have nl: "NL \<notin> set pre" "c \<noteq> NL" by auto
  from snoc assms(4) have suc: "Suc (buffer_offset s + length pre) = SERIAL_BUFFER_SIZE"
    by simp
  show ?thesis
  proof (cases "buffer_offset s = 0")
    case True
    with suc have lt: "buffer_offset s + length pre < SERIAL_BUFFER_SIZE"
      and cnt: "0 + int (length pre) + 1 = int SERIAL_BUFFER_SIZE" by simp_all
    from loop_overflow_bound [OF assms(2) nl len lt _ cnt, of lib rest] True snoc suc
    show ?thesis by (simp add: read_serial_def assms(5))
  next
    case False
    with suc have cnt: "0 + int (length pre) + 1 < int SERIAL_BUFFER_SIZE" by simp
    from loop_overflow_wrap [OF assms(2) nl len suc _ cnt, of lib rest] False snoc assms(2)
    show ?thesis by (simp add: read_serial_def assms(5))
  qed
qed

lemma overflow_call_short:
  assumes "buffer_ok s" and "overflow_mode s" and "NL \<notin> set (serial_in s)"
    and "buffer_offset s + length (serial_in s) < SERIAL_BUFFER_SIZE"
  shows "overflow_mode (read_serial lib s) \<and> dispatched (read_serial lib s) = dispatched s \<and>
         serial_in (read_serial lib s) = [] \<and> serial_out (read_serial lib s) = serial_out s"
  using assms(2) by (simp add: read_serial_overflow_exhausted [OF assms])

lemma overflow_call_long:
  assumes "buffer_ok s" and "overflow_mode s" and "NL \<notin> set (serial_in s)"
    and "\<not> buffer_offset s + length (serial_in s) < SERIAL_BUFFER_SIZE"
  shows "overflow_mode (read_serial lib s) \<and> dispatched (read_serial lib s) = dispatched s \<and>
         serial_in (read_serial lib s) =
           drop (SERIAL_BUFFER_SIZE - buffer_offset s) (serial_in s) \<and>
         serial_out (read_serial lib s) = serial_out s @ ''510 OVERFLOW'' @ CRLF"
proof -
  let ?n = "SERIAL_BUFFER_SIZE - buffer_offset s"
  have split: "serial_in s = take ?n (serial_in s) @ drop ?n (serial_in s)" by simp
  from assms(3) have nl: "NL \<notin> set (take ?n (serial_in s))" by (auto dest: in_set_takeD)
  from assms(1) have lt: "buffer_offset s < SERIAL_BUFFER_SIZE" by (simp add: buffer_ok_def)
  from assms(4) lt have len: "buffer_offset s + length (take ?n (serial_in s)) = SERIAL_BUFFER_SIZE"
    by simp
  from assms(2) show ?thesis
    by (simp add: read_serial_overflow_limit [OF assms(1,2) nl len split])
qed

lemma overflow_call_newline:
  assumes "buffer_ok s" and "overflow_mode s" and "NL \<notin> set pre"
    and "buffer_offset s + length pre < SERIAL_BUFFER_SIZE"
    and "serial_in s = pre @ NL # rest"
  shows "\<not> overflow_mode (read_serial lib s) \<and> serial_in (read_serial lib s) = rest \<and>
         serial_out (read_serial lib s) = serial_out s \<and>
         dispatched (read_serial lib s) = dispatched s"
  by (simp add: read_serial_overflow_newline [OF assms])

subsection \<open>The example runs\<close>

lemma sim_boot_fields [simp]:
  "buffer sim_boot = replicate 80 NUL" "buffer_offset sim_boot = 0"
  "overflow_mode sim_boot = False" "serial_in sim_boot = []" "dispatched sim_boot = []"
  "laser_armed sim_boot = False" "laser_duty_cycle sim_boot = 0" "stepper_pos sim_boot = 0"
  "stepper_run sim_boot = False" "stepper sim_boot = (0, CW)"
  by (simp_all add: sim_boot_def setup_sketch_def power_on_def op_defs Let_def
      SERIAL_BUFFER_SIZE_def sim_stepper_def)

lemma sim_stepper_fields [simp]:
  "isDone sim_stepper (r, d) = (r = 0)"
  "setDirection sim_stepper d' (r, d) = (r, d')"
  "rotateDegrees sim_stepper x (r, d) = (Suc (nat \<bar>x\<bar>), d)"
  by (simp_all add: sim_stepper_def)

lemma sim_stepper_lib:
  "\<not> isDone sim_stepper (rotateDegrees sim_stepper x m)"
  "setDirection sim_stepper STOP (setDirection sim_stepper STOP m) =
     setDirection sim_stepper STOP m"
  by (cases m, simp)+

lemma example_chars [simp]:
  "NL \<noteq> CHR ''x''" "CHR ''x'' \<noteq> NL" "NL \<noteq> CHR ''a''" "CHR ''a'' \<noteq> NL"
  "NUL \<noteq> CHR ''x''" "CHR ''x'' \<noteq> NUL" "NUL \<noteq> CHR ''a''" "CHR ''a'' \<noteq> NUL"
  "NUL \<noteq> NL" "NL \<noteq> NUL" "NL \<noteq> CHR ''p''" "NL \<noteq> CHR ''9''" "NL \<noteq> CHR ''0''"
  "NUL \<noteq> CHR ''p''" "NUL \<noteq> CHR ''9''" "NUL \<noteq> CHR ''0''"
  "CHR ''p'' \<noteq> NUL" "CHR ''9'' \<noteq> NUL" "CHR ''0'' \<noteq> NUL"
  by (simp_all add: NL_def NUL_def)

text \<open>
  An over-long line, call by call: 80 bytes fill the buffer; 20 more and the newline are
  read in overflow mode and leave the cursor at 20; the command \<^verbatim>\<open>a\<close> is then stored behind
  those 20 bytes and dispatched together with them.
\<close>

lemma flood_call_1:
  "read_serial sim_stepper (sim_boot\<lparr>serial_in := replicate 80 (CHR ''x'') @ rest\<rparr>) =
     sim_boot\<lparr>buffer := replicate 80 (CHR ''x''), buffer_offset := 0, overflow_mode := True,
       serial_out := serial_out sim_boot @ ''510 OVERFLOW'' @ CRLF, serial_in := rest\<rparr>"
proof -
  let ?s = "sim_boot\<lparr>serial_in := replicate 80 (CHR ''x'') @ rest\<rparr>"
  have "read_serial sim_stepper ?s =
     ?s\<lparr>buffer := store (buffer ?s) (buffer_offset ?s) (replicate 80 (CHR ''x'')),
        buffer_offset := 0, overflow_mode := True,
        serial_out := serial_out ?s @ ''510 OVERFLOW'' @ CRLF, serial_in := rest\<rparr>"
    by (rule read_serial_fills_buffer) (simp_all add: buffer_ok_def SERIAL_BUFFER_SIZE_def)
  then show ?thesis by (simp add: store_whole)
qed

lemma flood_call_2:
  "read_serial sim_stepper
     (sim_boot\<lparr>buffer := replicate 80 (CHR ''x''), buffer_offset := 0, overflow_mode := True,
        serial_out := out, serial_in := replicate 20 (CHR ''x'') @ NL # rest\<rparr>) =
     sim_boot\<lparr>buffer := replicate 20 (CHR ''x'') @ NL # replicate 59 (CHR ''x''),
       buffer_offset := 20, overflow_mode := False, serial_out := out, serial_in := rest\<rparr>"
proof -
  let ?s = "sim_boot\<lparr>buffer := replicate 80 (CHR ''x''), buffer_offset := 0,
        overflow_mode := True, serial_out := out,
        serial_in := replicate 20 (CHR ''x'') @ NL # rest\<rparr>"
  have "read_serial sim_stepper ?s =
     ?s\<lparr>buffer := store (buffer ?s) (buffer_offset ?s) (replicate 20 (CHR ''x'') @ [NL]),
        buffer_offset := buffer_offset ?s + length (replicate 20 (CHR ''x'')),
        overflow_mode := False, serial_in := rest\<rparr>"
    by (rule read_serial_overflow_newline) (simp_all add: buffer_ok_def SERIAL_BUFFER_SIZE_def)
  then show ?thesis by (simp add: store_eq)
qed

lemma flood_call_3:
  "read_serial sim_stepper
     (sim_boot\<lparr>buffer := replicate 20 (CHR ''x'') @ NL # replicate 59 (CHR ''x''),
        buffer_offset := 20, overflow_mode := False, serial_out := out,
        serial_in := ''a'' @ [NL]\<rparr>) =
     sim_boot\<lparr>buffer := replicate 20 (CHR ''x'') @ ''a'' @ NUL # replicate 58 (CHR ''x''),
       buffer_offset := 0, overflow_mode := False,
       serial_out := out @ ''501 UNKNOWN COMMAND'' @ CRLF, serial_in := [],
       dispatched := [replicate 20 (CHR ''x'') @ ''a'']\<rparr>"
proof -
  let ?s = "sim_boot\<lparr>buffer := replicate 20 (CHR ''x'') @ NL # replicate 59 (CHR ''x''),
        buffer_offset := 20, overflow_mode := False, serial_out := out,
        serial_in := ''a'' @ [NL]\<rparr>"
  have ok: "buffer_ok ?s" by (simp add: buffer_ok_def SERIAL_BUFFER_SIZE_def)
  have line: "c_str (take (buffer_offset ?s) (buffer ?s) @ ''a'') = replicate 20 (CHR ''x'') @ ''a''"
    by (simp add: c_str_def)
  have "read_serial sim_stepper ?s =
     (parse_command sim_stepper (c_str (take (buffer_offset ?s) (buffer ?s) @ ''a''))
        (?s\<lparr>buffer := take (buffer_offset ?s) (buffer ?s) @ ''a'' @
                       NUL # drop (Suc (buffer_offset ?s + length ''a'')) (buffer ?s),
           buffer_offset := 0,
           dispatched := dispatched ?s @ [c_str (take (buffer_offset ?s) (buffer ?s) @ ''a'')]\<rparr>))
     \<lparr>serial_in := []\<rparr>"
    by (rule read_serial_line [OF ok]) (simp_all add: SERIAL_BUFFER_SIZE_def)
  then show ?thesis
    by (simp only: line) (simp add: parse_command_default)
qed

text \<open>Eighty more bytes without a newline, read in overflow mode in one call.\<close>

lemma flood_call_bound:
  "read_serial sim_stepper
     (sim_boot\<lparr>buffer := replicate 80 (CHR ''x''), buffer_offset := 0, overflow_mode := True,
        serial_out := out, serial_in := replicate 80 (CHR ''x'') @ rest\<rparr>) =
     sim_boot\<lparr>buffer := replicate 80 (CHR ''x''), buffer_offset := 79, overflow_mode := True,
       serial_out := out @ ''510 OVERFLOW'' @ CRLF, serial_in := rest\<rparr>"
proof -
  let ?s = "sim_boot\<lparr>buffer := replicate 80 (CHR ''x''), buffer_offset := 0,
        overflow_mode := True, serial_out := out,
        serial_in := replicate 80 (CHR ''x'') @ rest\<rparr>"
  have "read_serial sim_stepper ?s =
     ?s\<lparr>buffer := store (buffer ?s) (buffer_offset ?s) (replicate 80 (CHR ''x'')),
        buffer_offset := (if buffer_offset ?s = 0 then SERIAL_BUFFER_SIZE - 1 else 0),
        serial_out := serial_out ?s @ ''510 OVERFLOW'' @ CRLF, serial_in := rest\<rparr>"
    by (rule read_serial_overflow_limit) (simp_all add: buffer_ok_def SERIAL_BUFFER_SIZE_def)
  then show ?thesis by (simp add: store_whole SERIAL_BUFFER_SIZE_def)
qed

lemma moving_example:
  "sim_moving =
     sim_boot\<lparr>buffer := ''p90'' @ NUL # replicate 76 NUL, dispatched := [''p90''],
       stepper := (90, CCW), stepper_pos := 90, stepper_run := True,
       serial_out := serial_out sim_boot @ ''204 FOCUS 90'' @ CRLF\<rparr>"
proof -
  let ?s = "sim_boot\<lparr>serial_in := serial_in sim_boot @ ''p90'' @ [NL]\<rparr>"
  have ok: "buffer_ok ?s" by (simp add: buffer_ok_def SERIAL_BUFFER_SIZE_def)
  have line: "c_str (take (buffer_offset ?s) (buffer ?s) @ ''p90'') = ''p90''"
    by (simp add: c_str_def)
  have "read_serial sim_stepper ?s =
     (parse_command sim_stepper (c_str (take (buffer_offset ?s) (buffer ?s) @ ''p90''))
        (?s\<lparr>buffer := take (buffer_offset ?s) (buffer ?s) @ ''p90'' @
                       NUL # drop (Suc (buffer_offset ?s + length ''p90'')) (buffer ?s),
           buffer_offset := 0,
           dispatched := dispatched ?s @ [c_str (take (buffer_offset ?s) (buffer ?s) @ ''p90'')]\<rparr>))
     \<lparr>serial_in := []\<rparr>"
    by (rule read_serial_line [OF ok]) (simp_all add: SERIAL_BUFFER_SIZE_def)
  then have "read_serial sim_stepper ?s =
     sim_boot\<lparr>buffer := ''p90'' @ NUL # replicate 76 NUL, dispatched := [''p90''],
       stepper := (91, CCW), stepper_pos := 90, stepper_run := True,
       serial_out := serial_out sim_boot @ ''204 FOCUS 90'' @ CRLF\<rparr>"
    by (simp only: line)
      (simp add: parse_command_def atoi_90 step_focus_accepted MAX_FOCUS_ROTATION_def dec_int_90)
  then show ?thesis
    by (simp add: sim_moving_def loop_def Let_def sim_stepper_def)
qed

section \<open>The claims\<close>

text \<open>
  Claim C1. While the laser is unarmed, \<^verbatim>\<open>laser_fire(n)\<close> writes the status line
  \<^verbatim>\<open>530 LASER UNARMED\<close> and does nothing else, for every duration \<open>n\<close>, zero and negative
  ones included: the trace of pin writes and delays stays as it was (no PWM output), and so
  do the armed flag, the duty cycle, the stepper position, the running flag and the stepper
  object. The same holds for the command \<^verbatim>\<open>f\<close> with any argument text.
\<close>

theorem fire_unarmed_rejected:
  assumes "\<not> laser_armed s"
  shows "laser_fire n s = s\<lparr>serial_out := serial_out s @ ''530 LASER UNARMED'' @ CRLF\<rparr> \<and>
         parse_command lib (CHR ''f'' # arg) s =
           s\<lparr>serial_out := serial_out s @ ''530 LASER UNARMED'' @ CRLF\<rparr>"
proof
  from assms show fire: "laser_fire n s =
      s\<lparr>serial_out := serial_out s @ ''530 LASER UNARMED'' @ CRLF\<rparr>" for n
    by (simp add: laser_fire_def serial_println_def)
  show "parse_command lib (CHR ''f'' # arg) s =
      s\<lparr>serial_out := serial_out s @ ''530 LASER UNARMED'' @ CRLF\<rparr>"
    by (simp add: parse_command_def fire)
qed

theorem fire_unarmed_rejected_witness:
  "\<not> laser_armed sim_boot \<and>
   laser_fire (- 5) sim_boot =
     sim_boot\<lparr>serial_out := serial_out sim_boot @ ''530 LASER UNARMED'' @ CRLF\<rparr> \<and>
   parse_command sim_stepper ''f0'' sim_boot =
     sim_boot\<lparr>serial_out := serial_out sim_boot @ ''530 LASER UNARMED'' @ CRLF\<rparr>"
  using fire_unarmed_rejected [of sim_boot "- 5" sim_stepper "''0''"] by simp

text \<open>
  Claim C2. From every reachable state, \<^verbatim>\<open>emergency_stop\<close> leaves the laser unarmed with the
  armed flag cleared and the duty cycle 0, and the stepper idle (the running flag cleared);
  a second call right after the first leaves the same device state as the first. The
  stepper library is outside the sketch; two facts about it are assumed: a rotation request
  leaves the motion not done, and commanding \<^verbatim>\<open>STOP\<close> twice is the same as commanding it
  once.
\<close>

theorem emergency_stop_safe_and_idempotent:
  assumes "\<And>x m. \<not> isDone lib (rotateDegrees lib x m)"
    and "\<And>m. setDirection lib STOP (setDirection lib STOP m) = setDirection lib STOP m"
    and "reachable lib s"
  shows "\<not> laser_armed (emergency_stop lib s) \<and>
         laser_duty_cycle (emergency_stop lib s) = 0 \<and>
         \<not> stepper_run (emergency_stop lib s) \<and>
         device_state (emergency_stop lib (emergency_stop lib s)) =
           device_state (emergency_stop lib s)"
proof -
  from assms(1,3) have "motion_ok lib s" by (rule reachable_motion_ok)
  then have "\<not> stepper_run (emergency_stop lib s)" by (rule emergency_stop_idle)
  with emergency_stop_laser_off [of lib s] emergency_stop_twice [OF assms(2), of s]
  show ?thesis by simp
qed

theorem emergency_stop_safe_and_idempotent_witness:
  "reachable sim_stepper sim_moving \<and> stepper_run sim_moving \<and>
   \<not> laser_armed (emergency_stop sim_stepper sim_moving) \<and>
   laser_duty_cycle (emergency_stop sim_stepper sim_moving) = 0 \<and>
   \<not> stepper_run (emergency_stop sim_stepper sim_moving) \<and>
   device_state (emergency_stop sim_stepper (emergency_stop sim_stepper sim_moving)) =
     device_state (emergency_stop sim_stepper sim_moving)"
proof -
  have r: "reachable sim_stepper sim_moving"
    unfolding sim_moving_def sim_boot_def
    by (intro reachable.iterated reachable.received reachable.booted)
  have m: "stepper_run sim_moving" by (simp add: moving_example)
  from emergency_stop_safe_and_idempotent [of sim_stepper sim_moving, OF sim_stepper_lib r] r m
  show ?thesis by simp
qed

text \<open>
  Claim C3, as the code has it. Take a line of at least 80 and fewer than 160 bytes with no
  newline among them, read from the start of the buffer outside overflow mode; its first
  bytes may already stand in the buffer, up to the cursor. The call of \<^verbatim>\<open>read_serial\<close> that
  reads its 80th byte writes \<^verbatim>\<open>510 OVERFLOW\<close>, enters overflow mode with the cursor at 0 and
  returns; nothing is dispatched. The next call reads the remaining bytes and the newline,
  writes no further status, dispatches nothing, leaves overflow mode and leaves the bytes
  after the newline in the queue; the device state and the pins are as before the line. So
  the line draws exactly one overflow status.
\<close>

theorem overlong_line_one_overflow:
  assumes "buffer_ok s" and "\<not> overflow_mode s"
    and "buffer_offset s + length xs = SERIAL_BUFFER_SIZE" and "NL \<notin> set xs"
    and "length ys < SERIAL_BUFFER_SIZE" and "NL \<notin> set ys"
    and "serial_in s = xs @ ys @ NL # rest"
  shows "read_serial lib s =
           s\<lparr>buffer := take (buffer_offset s) (buffer s) @ xs, buffer_offset := 0,
             overflow_mode := True, serial_out := serial_out s @ ''510 OVERFLOW'' @ CRLF,
             serial_in := ys @ NL # rest\<rparr> \<and>
         serial_in (read_serial lib (read_serial lib s)) = rest \<and>
         \<not> overflow_mode (read_serial lib (read_serial lib s)) \<and>
         serial_out (read_serial lib (read_serial lib s)) =
           serial_out s @ ''510 OVERFLOW'' @ CRLF \<and>
         dispatched (read_serial lib (read_serial lib s)) = dispatched s \<and>
         device_state (read_serial lib (read_serial lib s)) = device_state s \<and>
         hw (read_serial lib (read_serial lib s)) = hw s"
proof -
  let ?s1 = "s\<lparr>buffer := take (buffer_offset s) (buffer s) @ xs, buffer_offset := 0,
               overflow_mode := True, serial_out := serial_out s @ ''510 OVERFLOW'' @ CRLF,
               serial_in := ys @ NL # rest\<rparr>"
  from assms(1,3) have st: "store (buffer s) (buffer_offset s) xs =
      take (buffer_offset s) (buffer s) @ xs"
    by (simp add: store_eq buffer_ok_def)
  from read_serial_fills_buffer [OF assms(1,2,4,3,7), of lib] st
  have first: "read_serial lib s = ?s1" by simp
  from assms(1,3) have "buffer_ok ?s1"
    by (simp add: buffer_ok_def)
  then have "read_serial lib ?s1 =
     ?s1\<lparr>buffer := store (buffer ?s1) (buffer_offset ?s1) (ys @ [NL]),
         buffer_offset := buffer_offset ?s1 + length ys, overflow_mode := False,
         serial_in := rest\<rparr>"
    using assms(5,6) by (intro read_serial_overflow_newline) auto
  with first show ?thesis by (simp add: device_state_def)
qed

theorem overlong_line_one_overflow_witness:
  "read_serial sim_stepper sim_flood =
     sim_flood\<lparr>buffer := replicate 80 (CHR ''x''), buffer_offset := 0, overflow_mode := True,
       serial_out := serial_out sim_flood @ ''510 OVERFLOW'' @ CRLF,
       serial_in := replicate 20 (CHR ''x'') @ NL # ''a'' @ [NL]\<rparr> \<and>
   serial_in (read_serial sim_stepper (read_serial sim_stepper sim_flood)) = ''a'' @ [NL] \<and>
   \<not> overflow_mode (read_serial sim_stepper (read_serial sim_stepper sim_flood)) \<and>
   serial_out (read_serial sim_stepper (read_serial sim_stepper sim_flood)) =
     serial_out sim_flood @ ''510 OVERFLOW'' @ CRLF \<and>
   dispatched (read_serial sim_stepper (read_serial sim_stepper sim_flood)) =
     dispatched sim_flood \<and>
   device_state (read_serial sim_stepper (read_serial sim_stepper sim_flood)) =
     device_state sim_flood \<and>
   hw (read_serial sim_stepper (read_serial sim_stepper sim_flood)) = hw sim_flood"
proof -
  have same: "take (buffer_offset sim_flood) (buffer sim_flood) @ replicate 80 (CHR ''x'') =
      replicate 80 (CHR ''x'')"
    by (simp add: sim_flood_def)
  have "buffer_ok sim_flood" and "\<not> overflow_mode sim_flood"
    and "buffer_offset sim_flood + length (replicate 80 (CHR ''x'')) = SERIAL_BUFFER_SIZE"
    and "NL \<notin> set (replicate 80 (CHR ''x''))"
    and "length (replicate 20 (CHR ''x'')) < SERIAL_BUFFER_SIZE"
    and "NL \<notin> set (replicate 20 (CHR ''x''))"
    and "serial_in sim_flood =
      replicate 80 (CHR ''x'') @ replicate 20 (CHR ''x'') @ NL # ''a'' @ [NL]"
    by (simp_all add: sim_flood_def buffer_ok_def SERIAL_BUFFER_SIZE_def)
  from overlong_line_one_overflow [OF this, of sim_stepper] show ?thesis
    unfolding same .
qed

text \<open>
  The claim as the specification states it fails on the specification's own scenario: after
  100 bytes \<^verbatim>\<open>x\<close> and a newline, the buffer is not empty. The cursor stands at 20, so the next
  line, \<^verbatim>\<open>a\<close>, is dispatched as 20 bytes \<^verbatim>\<open>x\<close> followed by \<^verbatim>\<open>a\<close> and answered with
  \<^verbatim>\<open>501 UNKNOWN COMMAND\<close>; the laser is not armed. And a line of 160 bytes draws the overflow
  status twice.
\<close>

theorem overlong_line_corrupts_next_command:
  "read_serial sim_stepper (read_serial sim_stepper (read_serial sim_stepper sim_flood)) =
     sim_boot\<lparr>buffer := replicate 20 (CHR ''x'') @ ''a'' @ NUL # replicate 58 (CHR ''x''),
       buffer_offset := 0, overflow_mode := False,
       serial_out := serial_out sim_boot @ ''510 OVERFLOW'' @ CRLF @
                     ''501 UNKNOWN COMMAND'' @ CRLF,
       serial_in := [], dispatched := [replicate 20 (CHR ''x'') @ ''a'']\<rparr> \<and>
   serial_out (read_serial sim_stepper (read_serial sim_stepper sim_flood_160)) =
     serial_out sim_boot @ ''510 OVERFLOW'' @ CRLF @ ''510 OVERFLOW'' @ CRLF"
proof
  show "read_serial sim_stepper (read_serial sim_stepper (read_serial sim_stepper sim_flood)) =
     sim_boot\<lparr>buffer := replicate 20 (CHR ''x'') @ ''a'' @ NUL # replicate 58 (CHR ''x''),
       buffer_offset := 0, overflow_mode := False,
       serial_out := serial_out sim_boot @ ''510 OVERFLOW'' @ CRLF @
                     ''501 UNKNOWN COMMAND'' @ CRLF,
       serial_in := [], dispatched := [replicate 20 (CHR ''x'') @ ''a'']\<rparr>"
    unfolding sim_flood_def by (simp only: flood_call_1 flood_call_2 flood_call_3) simp
  have "read_serial sim_stepper sim_flood_160 =
     sim_boot\<lparr>buffer := replicate 80 (CHR ''x''), buffer_offset := 0, overflow_mode := True,
       serial_out := serial_out sim_boot @ ''510 OVERFLOW'' @ CRLF,
       serial_in := replicate 80 (CHR ''x'') @ []\<rparr>"
    unfolding sim_flood_160_def by (simp only: flood_call_1) simp
  then show "serial_out (read_serial sim_stepper (read_serial sim_stepper sim_flood_160)) =
     serial_out sim_boot @ ''510 OVERFLOW'' @ CRLF @ ''510 OVERFLOW'' @ CRLF"
    by (simp only: flood_call_bound) simp
qed

text \<open>
  Claim C4, as the code has it. \<^verbatim>\<open>loop_count\<close> counts the bytes read in overflow mode during
  the current call of \<^verbatim>\<open>read_serial\<close> only. A call in overflow mode whose input has no
  newline reads at most 80 minus cursor bytes (80 with the cursor at 0, where the counter
  reaches its bound); when it has read that many it writes \<^verbatim>\<open>510 OVERFLOW\<close> and returns with
  the rest of the input unread, and with fewer bytes it reads them all silently. Either way
  overflow mode stays on and nothing is dispatched. Overflow mode ends when a newline is
  read: the call returns there without output and without a dispatch.
\<close>

theorem overflow_mode_left_only_at_newline:
  assumes "buffer_ok s" and "overflow_mode s"
  shows "(NL \<notin> set (serial_in s) \<longrightarrow>
            overflow_mode (read_serial lib s) \<and>
            dispatched (read_serial lib s) = dispatched s \<and>
            (if buffer_offset s + length (serial_in s) < SERIAL_BUFFER_SIZE
             then serial_in (read_serial lib s) = [] \<and>
                  serial_out (read_serial lib s) = serial_out s
             else serial_in (read_serial lib s) =
                    drop (SERIAL_BUFFER_SIZE - buffer_offset s) (serial_in s) \<and>
                  serial_out (read_serial lib s) = serial_out s @ ''510 OVERFLOW'' @ CRLF)) \<and>
         (serial_in s = pre @ NL # rest \<and> NL \<notin> set pre \<and>
          buffer_offset s + length pre < SERIAL_BUFFER_SIZE \<longrightarrow>
            \<not> overflow_mode (read_serial lib s) \<and>
            serial_in (read_serial lib s) = rest \<and>
            serial_out (read_serial lib s) = serial_out s \<and>
            dispatched (read_serial lib s) = dispatched s)"
proof (intro conjI impI)
  assume nl: "NL \<notin> set (serial_in s)"
  show "overflow_mode (read_serial lib s)"
    using overflow_call_short [OF assms nl, of lib] overflow_call_long [OF assms nl, of lib]
    by blast
  show "dispatched (read_serial lib s) = dispatched s"
    using overflow_call_short [OF assms nl, of lib] overflow_call_long [OF assms nl, of lib]
    by blast
  show "if buffer_offset s + length (serial_in s) < SERIAL_BUFFER_SIZE
        then serial_in (read_serial lib s) = [] \<and>
             serial_out (read_serial lib s) = serial_out s
        else serial_in (read_serial lib s) =
               drop (SERIAL_BUFFER_SIZE - buffer_offset s) (serial_in s) \<and>
             serial_out (read_serial lib s) = serial_out s @ ''510 OVERFLOW'' @ CRLF"
    using overflow_call_short [OF assms nl, of lib] overflow_call_long [OF assms nl, of lib]
    by (cases "buffer_offset s + length (serial_in s) < SERIAL_BUFFER_SIZE") simp_all
next
  assume "serial_in s = pre @ NL # rest \<and> NL \<notin> set pre \<and>
    buffer_offset s + length pre < SERIAL_BUFFER_SIZE"
  then have *: "\<not> overflow_mode (read_serial lib s) \<and> serial_in (read_serial lib s) = rest \<and>
         serial_out (read_serial lib s) = serial_out s \<and>
         dispatched (read_serial lib s) = dispatched s"
    using assms by (intro overflow_call_newline) auto
  from * show "\<not> overflow_mode (read_serial lib s)" by simp
  from * show "serial_in (read_serial lib s) = rest" by simp
  from * show "serial_out (read_serial lib s) = serial_out s" by simp
  from * show "dispatched (read_serial lib s) = dispatched s" by simp
qed

theorem overflow_mode_left_only_at_newline_witness:
  "overflow_mode (read_serial sim_stepper sim_discarding) \<and>
   serial_in (read_serial sim_stepper sim_discarding) = [] \<and>
   serial_out (read_serial sim_stepper sim_discarding) =
     serial_out sim_discarding @ ''510 OVERFLOW'' @ CRLF \<and>
   \<not> overflow_mode (read_serial sim_stepper sim_recovering) \<and>
   serial_in (read_serial sim_stepper sim_recovering) = ''a'' @ [NL] \<and>
   serial_out (read_serial sim_stepper sim_recovering) = serial_out sim_recovering"
proof -
  have d: "buffer_ok sim_discarding" "overflow_mode sim_discarding"
    "NL \<notin> set (serial_in sim_discarding)"
    "\<not> buffer_offset sim_discarding + length (serial_in sim_discarding) < SERIAL_BUFFER_SIZE"
    "drop (SERIAL_BUFFER_SIZE - buffer_offset sim_discarding) (serial_in sim_discarding) = []"
    by (simp_all add: sim_discarding_def buffer_ok_def SERIAL_BUFFER_SIZE_def)
  have r: "buffer_ok sim_recovering" "overflow_mode sim_recovering"
    "serial_in sim_recovering = replicate 20 (CHR ''x'') @ NL # ''a'' @ [NL] \<and>
     NL \<notin> set (replicate 20 (CHR ''x'')) \<and>
     buffer_offset sim_recovering + length (replicate 20 (CHR ''x'')) < SERIAL_BUFFER_SIZE"
    by (simp_all add: sim_recovering_def buffer_ok_def SERIAL_BUFFER_SIZE_def)
  from overflow_mode_left_only_at_newline [OF d(1,2), of sim_stepper] d(3,4,5)
  have "overflow_mode (read_serial sim_stepper sim_discarding) \<and>
     serial_in (read_serial sim_stepper sim_discarding) = [] \<and>
     serial_out (read_serial sim_stepper sim_discarding) =
       serial_out sim_discarding @ ''510 OVERFLOW'' @ CRLF"
    by simp
  moreover
  from overflow_mode_left_only_at_newline [OF r(1,2), of sim_stepper "replicate 20 (CHR ''x'')"
      "''a'' @ [NL]"] r(3)
  have "\<not> overflow_mode (read_serial sim_stepper sim_recovering) \<and>
     serial_in (read_serial sim_stepper sim_recovering) = ''a'' @ [NL] \<and>
     serial_out (read_serial sim_stepper sim_recovering) = serial_out sim_recovering"
    by blast
  ultimately show ?thesis by blast
qed

text \<open>
  The claim as stated fails: after 160 bytes without a newline, the second call has read 80
  bytes in overflow mode, the counter has reached its bound and \<^verbatim>\<open>510 OVERFLOW\<close> was written
  a second time, and overflow mode is still on.
\<close>

theorem overflow_mode_survives_discard_bound:
  "read_serial sim_stepper (read_serial sim_stepper sim_flood_160) =
     sim_boot\<lparr>buffer := replicate 80 (CHR ''x''), buffer_offset := 79, overflow_mode := True,
       serial_out := serial_out sim_boot @ ''510 OVERFLOW'' @ CRLF @ ''510 OVERFLOW'' @ CRLF,
       serial_in := []\<rparr>"
proof -
  have "read_serial sim_stepper sim_flood_160 =
     sim_boot\<lparr>buffer := replicate 80 (CHR ''x''), buffer_offset := 0, overflow_mode := True,
       serial_out := serial_out sim_boot @ ''510 OVERFLOW'' @ CRLF,
       serial_in := replicate 80 (CHR ''x'') @ []\<rparr>"
    unfolding sim_flood_160_def by (simp only: flood_call_1) simp
  then show ?thesis by (simp only: flood_call_bound) simp
qed

text \<open>
  Claim C5, at the argument where the code departs from it. The command line \<^verbatim>\<open>p-32768\<close>
  asks for a rotation of \<open>-32768\<close> degrees, far beyond the bound of 1440. The macro \<^verbatim>\<open>abs\<close>
  negates the least \<^verbatim>\<open>int\<close>, which gives the least \<^verbatim>\<open>int\<close> again, and that is not above
  1440: the request is not rejected. The stepper is sent clockwise with \<open>-32768\<close> degrees,
  \<^verbatim>\<open>204 FOCUS -32768\<close> is written, the tracked position drops by 32768 and the running flag is
  set. For every other argument the lemmas \<open>step_focus_rejected\<close> and \<open>step_focus_accepted\<close>
  give what the claim says.
\<close>

theorem focus_rotate_int_min_accepted:
  "parse_command lib ''p-32768'' s =
     s\<lparr>stepper := rotateDegrees lib (- 32768) (setDirection lib CW (stepper s)),
       serial_out := serial_out s @ ''204 FOCUS -32768'' @ CRLF,
       stepper_pos := stepper_pos s - 32768,
       stepper_run := True\<rparr>"
  by (simp add: parse_command_def atoi_int_min step_focus_int_min)

text \<open>
  Claim C6, as the code has it. \<^verbatim>\<open>step_zero_pos\<close> sets the tracked position to 0 whatever the
  position and the motion state are. In \<^verbatim>\<open>laser_controller.ino\<close> the status line, code 209,
  reports the position before the reset. In the second variant of the sketch the position
  is cleared before it is printed, and the status line, code 201, always reports 0.
\<close>

theorem zero_focus_position_report:
  "step_zero_pos s =
     s\<lparr>serial_out := serial_out s @ ''209 FOCUS ZEROED, old pos = '' @
                      dec_int (sint (stepper_pos s)) @ CRLF,
       stepper_pos := 0\<rparr> \<and>
   step_zero_pos_part_000 s =
     s\<lparr>stepper_pos := 0, serial_out := serial_out s @ ''201 FOCUS pos = 0'' @ CRLF\<rparr>"
  by (simp add: step_zero_pos_def step_zero_pos_part_000_def serial_println_def serial_print_def
      Let_def dec_int_0)

text \<open>
  The claim as stated fails in the second variant: with the position at 5, the status line
  says 0, not 5.
\<close>

theorem zero_focus_part_000_reports_zero:
  "stepper_pos (sim_boot\<lparr>stepper_pos := 5\<rparr>) = 5 \<and>
   serial_out (step_zero_pos_part_000 (sim_boot\<lparr>stepper_pos := 5\<rparr>)) =
     serial_out sim_boot @ ''201 FOCUS pos = 0'' @ CRLF"
  by (simp add: step_zero_pos_part_000_def serial_println_def serial_print_def Let_def
      dec_int_0)

text \<open>
  Claim C7, as the code has it. The command \<^verbatim>\<open>d\<close> checks no range. Its argument \<open>n\<close> is an
  \<^verbatim>\<open>int\<close> and the parameter of \<^verbatim>\<open>laser_set_duty_cycle\<close> is a \<^verbatim>\<open>byte\<close>: what is stored is \<open>n\<close>
  modulo 256, which is \<open>n\<close> itself exactly when \<open>n\<close> is between 0 and 255. The status line,
  code 206, carries the stored value.
\<close>

theorem set_duty_cycle_truncates:
  "parse_command lib (CHR ''d'' # arg) s =
     s\<lparr>laser_duty_cycle := ucast (atoi arg),
       serial_out := serial_out s @ ''206 DUTY CYCLE '' @
          dec_nat (unat (ucast (atoi arg) :: byte)) @ CRLF\<rparr> \<and>
   uint (ucast (atoi arg) :: byte) = sint (atoi arg) mod 256"
proof
  show "parse_command lib (CHR ''d'' # arg) s =
     s\<lparr>laser_duty_cycle := ucast (atoi arg),
       serial_out := serial_out s @ ''206 DUTY CYCLE '' @
          dec_nat (unat (ucast (atoi arg) :: byte)) @ CRLF\<rparr>"
    by (simp add: parse_command_def laser_set_duty_cycle_def serial_println_def
        serial_print_def Let_def)
  show "uint (ucast (atoi arg) :: byte) = sint (atoi arg) mod 256"
    by (rule uint_ucast_byte)
qed

text \<open>
  The claim as stated fails: the argument 300 is not stored as given. The duty cycle
  becomes 44 and the status line says 44.
\<close>

theorem set_duty_cycle_300_stores_44:
  "laser_duty_cycle (parse_command sim_stepper ''d300'' sim_boot) = 44 \<and>
   serial_out (parse_command sim_stepper ''d300'' sim_boot) =
     serial_out sim_boot @ ''206 DUTY CYCLE 44'' @ CRLF"
  by (simp add: parse_command_def laser_set_duty_cycle_def serial_println_def serial_print_def
      Let_def atoi_300 dec_nat_44)

text \<open>
  Claim C8. When \<^verbatim>\<open>read_serial\<close>, outside overflow mode, reads a newline before the buffer is
  full, the bytes read before it stand in the buffer from the old cursor on and a NUL is
  stored behind them, the cursor is 0, \<^verbatim>\<open>parse_command\<close> is called once with the buffer's C
  string, and the function returns: the bytes after the newline stay in the receive queue,
  whatever they are. No call of \<^verbatim>\<open>read_serial\<close>, in any state and on any input, dispatches
  more than one command.
\<close>

theorem newline_dispatches_one_line:
  assumes "buffer_ok s" and "\<not> overflow_mode s" and "NL \<notin> set pre"
    and "buffer_offset s + length pre < SERIAL_BUFFER_SIZE"
    and "serial_in s = pre @ NL # rest"
  shows "read_serial lib s =
     (parse_command lib (c_str (take (buffer_offset s) (buffer s) @ pre))
        (s\<lparr>buffer := take (buffer_offset s) (buffer s) @ pre @
                       NUL # drop (Suc (buffer_offset s + length pre)) (buffer s),
           buffer_offset := 0,
           dispatched := dispatched s @ [c_str (take (buffer_offset s) (buffer s) @ pre)]\<rparr>))
     \<lparr>serial_in := rest\<rparr> \<and>
     length (dispatched (read_serial lib' s')) \<le> Suc (length (dispatched s'))"
  using read_serial_line [OF assms] read_serial_dispatched [of lib' s'] by simp

theorem newline_dispatches_one_line_witness:
  "read_serial sim_stepper (sim_boot\<lparr>serial_in := ''a'' @ NL # ''u'' @ [NL]\<rparr>) =
     sim_boot\<lparr>buffer := ''a'' @ NUL # replicate 78 NUL, buffer_offset := 0,
       dispatched := [''a''],
       hw := hw sim_boot @ [DigitalWrite PIN_LASER_ARM True], laser_armed := True,
       serial_out := serial_out sim_boot @ ''207 LASER ARMED'' @ CRLF,
       serial_in := ''u'' @ [NL]\<rparr>"
proof -
  let ?s = "sim_boot\<lparr>serial_in := ''a'' @ NL # ''u'' @ [NL]\<rparr>"
  have h: "buffer_ok ?s" "\<not> overflow_mode ?s" "NL \<notin> set ''a''"
    "buffer_offset ?s + length ''a'' < SERIAL_BUFFER_SIZE"
    "serial_in ?s = ''a'' @ NL # ''u'' @ [NL]"
    by (simp_all add: buffer_ok_def SERIAL_BUFFER_SIZE_def)
  from newline_dispatches_one_line [OF h, of sim_stepper sim_stepper sim_boot]
  have "read_serial sim_stepper ?s =
     (parse_command sim_stepper (c_str (take (buffer_offset ?s) (buffer ?s) @ ''a''))
        (?s\<lparr>buffer := take (buffer_offset ?s) (buffer ?s) @ ''a'' @
                       NUL # drop (Suc (buffer_offset ?s + length ''a'')) (buffer ?s),
           buffer_offset := 0,
           dispatched := dispatched ?s @ [c_str (take (buffer_offset ?s) (buffer ?s) @ ''a'')]\<rparr>))
     \<lparr>serial_in := ''u'' @ [NL]\<rparr>"
    by (rule conjunct1)
  then show ?thesis
    by (simp add: c_str_def parse_command_def laser_arm_def digitalWrite_def serial_println_def)
qed

text \<open>
  Claim C9. A line that is empty or whose first character is none of the opcodes
  \<^verbatim>\<open>e a u d f p z h\<close> is answered with \<^verbatim>\<open>501 UNKNOWN COMMAND\<close>; nothing else in the state
  changes. \<^verbatim>\<open>parse_command\<close> has no failing branch: for the empty line \<^verbatim>\<open>s[0]\<close> is the
  terminating NUL, which the \<^verbatim>\<open>switch\<close> sends to \<^verbatim>\<open>default\<close>.
\<close>

theorem unknown_opcode_rejected:
  assumes "str = [] \<or> hd str \<notin> set ''eaudfpzh''"
  shows "parse_command lib str s =
     s\<lparr>serial_out := serial_out s @ ''501 UNKNOWN COMMAND'' @ CRLF\<rparr>"
proof (cases str)
  case Nil
  then show ?thesis by (simp add: parse_command_def serial_println_def)
next
  case (Cons c arg)
  with assms have "c \<notin> set ''eaudfpzh''" by simp
  with Cons show ?thesis by (simp add: parse_command_def serial_println_def)
qed

theorem unknown_opcode_rejected_witness:
  "parse_command sim_stepper [] sim_boot =
     sim_boot\<lparr>serial_out := serial_out sim_boot @ ''501 UNKNOWN COMMAND'' @ CRLF\<rparr> \<and>
   parse_command sim_stepper ''x12'' sim_boot =
     sim_boot\<lparr>serial_out := serial_out sim_boot @ ''501 UNKNOWN COMMAND'' @ CRLF\<rparr>"
  using unknown_opcode_rejected [of "[]" sim_stepper sim_boot]
    unknown_opcode_rejected [of "''x12''" sim_stepper sim_boot]
  by simp

text \<open>
  Claim C10. While the laser is armed, \<^verbatim>\<open>laser_fire(n)\<close> writes the duty cycle to the PWM
  pin, waits, writes 0 to the PWM pin and prints the status line, code 205, with the
  duration and the duty cycle. Nothing else changes: the armed flag, the duty cycle, the
  stepper position, the running flag and the stepper object are as before, so the laser is
  still armed when the function returns.
\<close>

theorem fire_armed_frame:
  assumes "laser_armed s"
  shows "laser_fire n s =
     s\<lparr>hw := hw s @ [AnalogWrite PIN_LASER_PWM (unat (laser_duty_cycle s)), Delay (unat n),
                      AnalogWrite PIN_LASER_PWM 0],
       serial_out := serial_out s @ ''205 LASER FIRED '' @ dec_int (sint n) @ '' ms @ '' @
                     dec_nat (unat (laser_duty_cycle s)) @ ''/255 duty cycle'' @ CRLF\<rparr> \<and>
     laser_armed (laser_fire n s) \<and>
     device_state (laser_fire n s) = device_state s"
proof -
  from assms have "laser_fire n s =
     s\<lparr>hw := hw s @ [AnalogWrite PIN_LASER_PWM (unat (laser_duty_cycle s)), Delay (unat n),
                      AnalogWrite PIN_LASER_PWM 0],
       serial_out := serial_out s @ ''205 LASER FIRED '' @ dec_int (sint n) @ '' ms @ '' @
                     dec_nat (unat (laser_duty_cycle s)) @ ''/255 duty cycle'' @ CRLF\<rparr>"
    by (simp add: laser_fire_def analogWrite_def delay_def serial_print_def serial_println_def
        Let_def)
  with assms show ?thesis by (simp add: device_state_def)
qed

theorem fire_armed_frame_witness:
  "laser_fire 50 (sim_boot\<lparr>laser_armed := True, laser_duty_cycle := 100\<rparr>) =
     sim_boot\<lparr>laser_armed := True, laser_duty_cycle := 100,
       hw := hw sim_boot @ [AnalogWrite PIN_LASER_PWM 100, Delay 50,
                            AnalogWrite PIN_LASER_PWM 0],
       serial_out := serial_out sim_boot @
                     ''205 LASER FIRED 50 ms @ 100/255 duty cycle'' @ CRLF\<rparr>"
  using fire_armed_frame [of "sim_boot\<lparr>laser_armed := True, laser_duty_cycle := 100\<rparr>" 50]
  by (simp add: dec_int_50 dec_nat_100)

end
